theory Spec2Isabelle
  imports Complex_Main "HOL-Library.Sublist" "HOL-Library.Multiset" "HOL-Library.Product_Lexorder"
begin

section \<open>JavaScript collections used by the aggregation pipeline\<close>

text \<open>
  The pipeline of \<^verbatim>\<open>server/services/azure-devops.ts\<close> works on JavaScript arrays,
  \<^verbatim>\<open>Map\<close>s and \<^verbatim>\<open>Set\<close>s. An array is a list. A \<^verbatim>\<open>Map\<close> iterates in insertion
  order and keeps one entry per key, so it is an association list whose first entry for
  a key is the entry; a \<^verbatim>\<open>Set\<close> is a list without duplicates, in insertion order.
  Counters are natural numbers (the source's numbers are doubles, exact on the integers
  that a count can reach).
\<close>

subsection \<open>Map\<close>

definition Map_has :: "('k \<times> 'v) list \<Rightarrow> 'k \<Rightarrow> bool" where
  "Map_has m k = (map_of m k \<noteq> None)"

definition Map_get :: "('k \<times> 'v) list \<Rightarrow> 'k \<Rightarrow> 'v option" where
  "Map_get m k = map_of m k"

fun Map_set :: "'k \<Rightarrow> 'v \<Rightarrow> ('k \<times> 'v) list \<Rightarrow> ('k \<times> 'v) list" where
  "Map_set k v [] = [(k, v)]"
| "Map_set k v ((k', v') # m) = (if k' = k then (k, v) # m else (k', v') # Map_set k v m)"

text \<open>
  \<^verbatim>\<open>map.get(k)!.field++\<close> mutates the object stored under \<open>k\<close> in place: the entry
  keeps its position, every other entry is untouched, and nothing happens to the map
  when the key is missing (the source only does it after \<^verbatim>\<open>has\<close> or \<^verbatim>\<open>set\<close>).
\<close>

fun Map_modify :: "'k \<Rightarrow> ('v \<Rightarrow> 'v) \<Rightarrow> ('k \<times> 'v) list \<Rightarrow> ('k \<times> 'v) list" where
  "Map_modify k f [] = []"
| "Map_modify k f ((k', v) # m) = (if k' = k then (k', f v) # m else (k', v) # Map_modify k f m)"

definition Map_values :: "('k \<times> 'v) list \<Rightarrow> 'v list" where
  "Map_values m = map snd m"

subsection \<open>Set\<close>

definition Set_add :: "'a \<Rightarrow> 'a list \<Rightarrow> 'a list" where
  "Set_add x s = (if x \<in> set s then s else s @ [x])"

subsection \<open>Array.prototype.sort with a comparator\<close>

text \<open>
  \<^verbatim>\<open>xs.sort(cmp)\<close> is a stable sort (ECMAScript 2019): an element \<open>a\<close> stays before
  \<open>b\<close> unless \<open>cmp a b > 0\<close>. For a comparator that is a difference of keys the result
  is the one stable ordering, which insertion from the right computes.
\<close>

fun insert_by :: "('a \<Rightarrow> 'a \<Rightarrow> int) \<Rightarrow> 'a \<Rightarrow> 'a list \<Rightarrow> 'a list" where
  "insert_by cmp x [] = [x]"
| "insert_by cmp x (y # ys) = (if cmp x y \<le> 0 then x # y # ys else y # insert_by cmp x ys)"

definition js_sort :: "('a \<Rightarrow> 'a \<Rightarrow> int) \<Rightarrow> 'a list \<Rightarrow> 'a list" where
  "js_sort cmp xs = foldr (insert_by cmp) xs []"

text \<open>\<^verbatim>\<open>xs.slice(0, n)\<close>\<close>

definition slice0 :: "nat \<Rightarrow> 'a list \<Rightarrow> 'a list" where
  "slice0 n xs = take n xs"

subsection \<open>Math.max and indexOf\<close>

text \<open>\<^verbatim>\<open>Math.max(...xs)\<close> is \<^verbatim>\<open>-Infinity\<close> on the empty array: \<open>None\<close> here.\<close>

fun Math_max :: "nat list \<Rightarrow> nat option" where
  "Math_max [] = None"
| "Math_max (x # xs) = (case Math_max xs of None \<Rightarrow> Some x | Some m \<Rightarrow> Some (max x m))"

text \<open>\<^verbatim>\<open>xs.indexOf(v)\<close>: the first index holding \<open>v\<close>, and \<open>-1\<close> when there is none.\<close>

fun indexOf :: "'a list \<Rightarrow> 'a \<Rightarrow> int" where
  "indexOf [] v = -1"
| "indexOf (x # xs) v = (if x = v then 0 else (let i = indexOf xs v in if i < 0 then -1 else i + 1))"

definition indexOfMax :: "nat list \<Rightarrow> int" where
  "indexOfMax xs = (case Math_max xs of None \<Rightarrow> -1 | Some m \<Rightarrow> indexOf xs m)"

section \<open>Dates\<close>

text \<open>
  A calendar date string \<^verbatim>\<open>"YYYY-MM-DD"\<close> (what \<^verbatim>\<open>date.split("T")[0]\<close> yields, and
  what the date inputs of the client send as \<^verbatim>\<open>dateFrom\<close> and \<^verbatim>\<open>dateTo\<close>) is the
  triple of its fields. The fields are zero-padded to a fixed width, so comparing two such
  strings is comparing the triples lexicographically, which is the order of
  \<^typ>\<open>nat \<times> nat \<times> nat\<close>. \<^verbatim>\<open>new Date("YYYY-MM-DD").getTime()\<close> is midnight UTC of that
  day in milliseconds since 1970-01-01.
\<close>

type_synonym isoDate = "nat \<times> nat \<times> nat"

definition is_leap :: "nat \<Rightarrow> bool" where
  "is_leap y = (y mod 4 = 0 \<and> (y mod 100 \<noteq> 0 \<or> y mod 400 = 0))"

definition days_in_month :: "nat \<Rightarrow> nat \<Rightarrow> nat" where
  "days_in_month y m =
     (if m = 2 then (if is_leap y then 29 else 28)
      else if m = 4 \<or> m = 6 \<or> m = 9 \<or> m = 11 then 30 else 31)"

definition valid_date :: "isoDate \<Rightarrow> bool" where
  "valid_date dt = (case dt of (y, m, d) \<Rightarrow> 1 \<le> m \<and> m \<le> 12 \<and> 1 \<le> d \<and> d \<le> days_in_month y m)"

definition days_before_year :: "nat \<Rightarrow> int" where
  "days_before_year y = (let p = int y - 1 in 365 * p + p div 4 - p div 100 + p div 400)"

text \<open>The days of the year before the first of month \<open>m\<close> (months count from 1).\<close>

definition days_before_month :: "nat \<Rightarrow> nat \<Rightarrow> int" where
  "days_before_month y m =
     [0, 31, 59, 90, 120, 151, 181, 212, 243, 273, 304, 334] ! (m - 1)
     + (if m > 2 \<and> is_leap y then 1 else 0)"

definition dayNumber :: "isoDate \<Rightarrow> int" where
  "dayNumber dt = (case dt of (y, m, d) \<Rightarrow>
     days_before_year y + days_before_month y m + int d - 1 - 719162)"

definition msPerDay :: int where
  "msPerDay = 1000 * 60 * 60 * 24"

definition dateTime :: "isoDate \<Rightarrow> int" where
  "dateTime dt = dayNumber dt * msPerDay"

text \<open>
  A commit's \<^verbatim>\<open>author.date\<close> is a UTC time stamp \<^verbatim>\<open>"YYYY-MM-DDTHH:MM:SSZ"\<close>: the
  date before the \<^verbatim>\<open>T\<close> and the milliseconds into that day. \<^verbatim>\<open>getHours()\<close> and
  \<^verbatim>\<open>getDay()\<close> read the host's local time; the host's zone is a fixed offset \<open>tz\<close> in
  milliseconds (0 for a server running in UTC). 1970-01-01 was a Thursday (day 4).
\<close>

record timestamp =
  datePart :: isoDate
  msOfDay :: nat

definition getTime :: "timestamp \<Rightarrow> int" where
  "getTime t = dateTime (datePart t) + int (msOfDay t)"

definition getHours :: "int \<Rightarrow> timestamp \<Rightarrow> nat" where
  "getHours tz t = nat (((getTime t + tz) div (1000 * 60 * 60)) mod 24)"

definition getDay :: "int \<Rightarrow> timestamp \<Rightarrow> nat" where
  "getDay tz t = nat (((getTime t + tz) div msPerDay + 4) mod 7)"

section \<open>Input records\<close>

text \<open>
  \<^verbatim>\<open>AzureDevOpsCommit\<close>, \<^verbatim>\<open>AzureDevOpsPullRequest\<close> and \<^verbatim>\<open>AzureDevOpsWorkItem\<close>,
  with the fields the aggregation reads. An optional field is an \<open>option\<close>. Story points
  are whole numbers.
\<close>

record commit =
  commitId :: string
  author_name :: string
  author_date :: timestamp
  comment :: string

record reviewer =
  displayName :: string
  vote :: int

record pullRequest =
  pullRequestId :: nat
  status :: string
  createdBy :: string
  reviewers :: "reviewer list option"

record workItem =
  wi_id :: nat
  workItemType :: string
  wi_state :: string
  assignedTo :: "string option"
  storyPoints :: "int option"
  areaPath :: "string option"

text \<open>\<^verbatim>\<open>x || 0\<close> on an optional number\<close>

definition or0 :: "int option \<Rightarrow> int" where
  "or0 x = (case x of None \<Rightarrow> 0 | Some v \<Rightarrow> v)"

definition nat_or0 :: "nat option \<Rightarrow> nat" where
  "nat_or0 x = (case x of None \<Rightarrow> 0 | Some v \<Rightarrow> v)"

section \<open>Contributors\<close>

record contributor =
  name :: string
  commits :: nat
  pullRequestsOpened :: nat
  pullRequestsReviewed :: nat
  commentsWritten :: nat
  bugsFixed :: nat
  storyPointsDone :: int
  linesAdded :: "nat option"
  linesDeleted :: "nat option"
  avgPrMergeTimeHours :: "int option"
  longestStreak :: "nat option"
  favoriteHour :: "int option"

text \<open>The object literal of \<^verbatim>\<open>azure-devops.ts\<close>, with the five enhanced fields at 0.\<close>

definition newContributor :: "string \<Rightarrow> contributor" where
  "newContributor n = \<lparr> name = n, commits = 0, pullRequestsOpened = 0,
     pullRequestsReviewed = 0, commentsWritten = 0, bugsFixed = 0, storyPointsDone = 0,
     linesAdded = Some 0, linesDeleted = Some 0, avgPrMergeTimeHours = Some 0,
     longestStreak = Some 0, favoriteHour = Some 0 \<rparr>"

text \<open>The object literal of the earlier variants, which leave the optional fields out.\<close>

definition newContributor_part001 :: "string \<Rightarrow> contributor" where
  "newContributor_part001 n = \<lparr> name = n, commits = 0, pullRequestsOpened = 0,
     pullRequestsReviewed = 0, commentsWritten = 0, bugsFixed = 0, storyPointsDone = 0,
     linesAdded = None, linesDeleted = None, avgPrMergeTimeHours = None,
     longestStreak = None, favoriteHour = None \<rparr>"

section \<open>Aggregator: \<^verbatim>\<open>aggregateContributorStats\<close>\<close>

text \<open>
  The function's state is the contributor map and, in \<^verbatim>\<open>azure-devops.ts\<close>, the map
  \<^verbatim>\<open>commitHoursByAuthor\<close> of 24-slot histograms. Each loop is a fold of its body over
  the input array.
\<close>

type_synonym contributorMap = "(string \<times> contributor) list"
type_synonym hoursMap = "(string \<times> nat list) list"

definition ensureContributor :: "string \<Rightarrow> contributorMap \<times> hoursMap \<Rightarrow> contributorMap \<times> hoursMap" where
  "ensureContributor n s = (case s of (cm, hm) \<Rightarrow>
     if \<not> Map_has cm n
     then (Map_set n (newContributor n) cm, Map_set n (replicate 24 0) hm)
     else (cm, hm))"

definition commitStep :: "int \<Rightarrow> contributorMap \<times> hoursMap \<Rightarrow> commit \<Rightarrow> contributorMap \<times> hoursMap" where
  "commitStep tz s c =
     (let n = author_name c;
          (cm, hm) = ensureContributor n s;
          cm' = Map_modify n (\<lambda>k. k\<lparr>commits := commits k + 1\<rparr>) cm;
          hour = getHours tz (author_date c)
      in (cm', Map_modify n (\<lambda>hs. hs[hour := hs ! hour + 1]) hm))"

definition reviewerStep :: "contributorMap \<times> hoursMap \<Rightarrow> reviewer \<Rightarrow> contributorMap \<times> hoursMap" where
  "reviewerStep s r =
     (let (cm, hm) = ensureContributor (displayName r) s
      in (Map_modify (displayName r) (\<lambda>k. k\<lparr>pullRequestsReviewed := pullRequestsReviewed k + 1\<rparr>) cm, hm))"

definition reviewersOrEmpty :: "pullRequest \<Rightarrow> reviewer list" where
  "reviewersOrEmpty pr = (case reviewers pr of None \<Rightarrow> [] | Some rs \<Rightarrow> rs)"

definition prStep :: "contributorMap \<times> hoursMap \<Rightarrow> pullRequest \<Rightarrow> contributorMap \<times> hoursMap" where
  "prStep s pr =
     (let n = createdBy pr;
          (cm, hm) = ensureContributor n s;
          cm' = Map_modify n (\<lambda>k. k\<lparr>pullRequestsOpened := pullRequestsOpened k + 1\<rparr>) cm
      in foldl reviewerStep (cm', hm) (reviewersOrEmpty pr))"

text \<open>
  The work-item loop's body. \<^verbatim>\<open>assignee && contributorMap.has(assignee)\<close> tests the
  display name for truthiness first: an absent assignee and the empty name both fail it.
\<close>

definition isDoneBug :: "workItem \<Rightarrow> bool" where
  "isDoneBug wi = (workItemType wi = ''Bug'' \<and> wi_state wi = ''Done'')"

definition workItemStep :: "contributorMap \<Rightarrow> workItem \<Rightarrow> contributorMap" where
  "workItemStep cm wi =
     (case assignedTo wi of
        None \<Rightarrow> cm
      | Some a \<Rightarrow>
          if a \<noteq> [] \<and> Map_has cm a then
            (let cm' = (if isDoneBug wi
                        then Map_modify a (\<lambda>k. k\<lparr>bugsFixed := bugsFixed k + 1\<rparr>) cm
                        else cm)
             in Map_modify a (\<lambda>k. k\<lparr>storyPointsDone := storyPointsDone k + or0 (storyPoints wi)\<rparr>) cm')
          else cm)"

text \<open>
  The final \<^verbatim>\<open>forEach\<close> over the entries. Merge times are hours as fractions
  (\<^verbatim>\<open>(closed - created) / 3600000\<close>); \<^verbatim>\<open>Math.round\<close> rounds half up.
\<close>

definition Math_round :: "rat \<Rightarrow> int" where
  "Math_round x = \<lfloor>x + 1 / 2\<rfloor>"

definition enrich :: "(string \<times> rat list) list \<Rightarrow> (string \<times> nat) list \<Rightarrow> hoursMap
    \<Rightarrow> string \<times> contributor \<Rightarrow> string \<times> contributor" where
  "enrich mergeTimeByAuthor streaksByAuthor hm e = (case e of (n, k) \<Rightarrow>
     (let k1 = (case Map_get mergeTimeByAuthor n of
                  None \<Rightarrow> k
                | Some ts \<Rightarrow> if length ts > 0
                    then k\<lparr>avgPrMergeTimeHours := Some (Math_round (sum_list ts / of_nat (length ts)))\<rparr>
                    else k);
          k2 = k1\<lparr>longestStreak := Some (nat_or0 (Map_get streaksByAuthor n))\<rparr>;
          k3 = (case Map_get hm n of
                  None \<Rightarrow> k2
                | Some hours \<Rightarrow> k2\<lparr>favoriteHour := Some (indexOfMax hours)\<rparr>)
      in (n, k3)))"

text \<open>The contributor map as it stands just before the \<^verbatim>\<open>return\<close>.\<close>

definition contributorMapOf :: "int \<Rightarrow> commit list \<Rightarrow> pullRequest list \<Rightarrow> workItem list
    \<Rightarrow> (string \<times> rat list) list \<Rightarrow> (string \<times> nat) list \<Rightarrow> contributorMap" where
  "contributorMapOf tz cs prs wis mergeTimeByAuthor streaksByAuthor =
     (let s1 = foldl (commitStep tz) ([], []) cs;
          (cm2, hm) = foldl prStep s1 prs;
          cm3 = foldl workItemStep cm2 wis
      in map (enrich mergeTimeByAuthor streaksByAuthor hm) cm3)"

definition byCommitsDesc :: "contributor \<Rightarrow> contributor \<Rightarrow> int" where
  "byCommitsDesc a b = int (commits b) - int (commits a)"

definition aggregateContributorStats :: "int \<Rightarrow> commit list \<Rightarrow> pullRequest list \<Rightarrow> workItem list
    \<Rightarrow> (string \<times> rat list) list \<Rightarrow> (string \<times> nat) list \<Rightarrow> contributor list" where
  "aggregateContributorStats tz cs prs wis mergeTimeByAuthor streaksByAuthor =
     slice0 10 (js_sort byCommitsDesc
       (Map_values (contributorMapOf tz cs prs wis mergeTimeByAuthor streaksByAuthor)))"

subsection \<open>The earlier variant (\<^verbatim>\<open>unnamed/part_001\<close>, the same text in \<^verbatim>\<open>part_009\<close>)\<close>

text \<open>
  Three arguments, no histogram map, no enrichment; the loops are the same, on records
  without the optional fields.
\<close>

definition ensureContributor_part001 :: "string \<Rightarrow> contributorMap \<Rightarrow> contributorMap" where
  "ensureContributor_part001 n cm =
     (if \<not> Map_has cm n then Map_set n (newContributor_part001 n) cm else cm)"

definition commitStep_part001 :: "contributorMap \<Rightarrow> commit \<Rightarrow> contributorMap" where
  "commitStep_part001 cm c =
     Map_modify (author_name c) (\<lambda>k. k\<lparr>commits := commits k + 1\<rparr>)
       (ensureContributor_part001 (author_name c) cm)"

definition reviewerStep_part001 :: "contributorMap \<Rightarrow> reviewer \<Rightarrow> contributorMap" where
  "reviewerStep_part001 cm r =
     Map_modify (displayName r) (\<lambda>k. k\<lparr>pullRequestsReviewed := pullRequestsReviewed k + 1\<rparr>)
       (ensureContributor_part001 (displayName r) cm)"

definition prStep_part001 :: "contributorMap \<Rightarrow> pullRequest \<Rightarrow> contributorMap" where
  "prStep_part001 cm pr =
     foldl reviewerStep_part001
       (Map_modify (createdBy pr) (\<lambda>k. k\<lparr>pullRequestsOpened := pullRequestsOpened k + 1\<rparr>)
          (ensureContributor_part001 (createdBy pr) cm))
       (reviewersOrEmpty pr)"

definition contributorMapOf_part001 :: "commit list \<Rightarrow> pullRequest list \<Rightarrow> workItem list
    \<Rightarrow> contributorMap" where
  "contributorMapOf_part001 cs prs wis =
     foldl workItemStep (foldl prStep_part001 (foldl commitStep_part001 [] cs) prs) wis"

definition aggregateContributorStats_part001 :: "commit list \<Rightarrow> pullRequest list
    \<Rightarrow> workItem list \<Rightarrow> contributor list" where
  "aggregateContributorStats_part001 cs prs wis =
     slice0 10 (js_sort byCommitsDesc (Map_values (contributorMapOf_part001 cs prs wis)))"

section \<open>Ranking engine: \<^verbatim>\<open>calculateTop5\<close>\<close>

text \<open>A leaderboard entry \<^verbatim>\<open>{ name, <field> }\<close> is the pair of the name and the count.\<close>

record top5 =
  mostCommits :: "(string \<times> nat) list"
  mostPullRequestsOpened :: "(string \<times> nat) list"
  mostPullRequestsReviewed :: "(string \<times> nat) list"
  mostCommentsWritten :: "(string \<times> nat) list"
  busiestDaysByCommits :: "(isoDate \<times> nat) list"
  longestStreaks :: "(string \<times> nat) list option"

definition countByDate :: "(isoDate \<times> nat) list \<Rightarrow> commit \<Rightarrow> (isoDate \<times> nat) list" where
  "countByDate m c =
     (let d = datePart (author_date c) in Map_set d (nat_or0 (Map_get m d) + 1) m)"

definition byCountDesc :: "'a \<times> nat \<Rightarrow> 'a \<times> nat \<Rightarrow> int" where
  "byCountDesc a b = int (snd b) - int (snd a)"

definition busiestDays :: "commit list \<Rightarrow> (isoDate \<times> nat) list" where
  "busiestDays cs = slice0 5 (js_sort byCountDesc (foldl countByDate [] cs))"

definition byPRsOpenedDesc :: "contributor \<Rightarrow> contributor \<Rightarrow> int" where
  "byPRsOpenedDesc a b = int (pullRequestsOpened b) - int (pullRequestsOpened a)"

definition byPRsReviewedDesc :: "contributor \<Rightarrow> contributor \<Rightarrow> int" where
  "byPRsReviewedDesc a b = int (pullRequestsReviewed b) - int (pullRequestsReviewed a)"

definition byCommentsDesc :: "contributor \<Rightarrow> contributor \<Rightarrow> int" where
  "byCommentsDesc a b = int (commentsWritten b) - int (commentsWritten a)"

definition byStreakDesc :: "contributor \<Rightarrow> contributor \<Rightarrow> int" where
  "byStreakDesc a b = int (nat_or0 (longestStreak b)) - int (nat_or0 (longestStreak a))"

text \<open>
  \<^verbatim>\<open>azure-devops.ts\<close> sorts copies (\<^verbatim>\<open>[...contributors].sort(..)\<close>). The function
  returns the leaderboards together with the caller's array as the call leaves it, which
  here is the array it was given. The third argument \<^verbatim>\<open>streakData\<close> is not read.
\<close>

definition calculateTop5 :: "contributor list \<Rightarrow> commit list \<Rightarrow> (string \<times> nat) list
    \<Rightarrow> top5 \<times> contributor list" where
  "calculateTop5 contributors cs streaksByAuthor =
     (let sortedByCommits = js_sort byCommitsDesc contributors;
          sortedByPRsOpened = js_sort byPRsOpenedDesc contributors;
          sortedByPRsReviewed = js_sort byPRsReviewedDesc contributors;
          sortedByComments = js_sort byCommentsDesc contributors;
          sortedByStreaks = js_sort byStreakDesc contributors
      in (\<lparr> mostCommits = map (\<lambda>c. (name c, commits c)) (slice0 5 sortedByCommits),
            mostPullRequestsOpened =
              map (\<lambda>c. (name c, pullRequestsOpened c)) (slice0 5 sortedByPRsOpened),
            mostPullRequestsReviewed =
              map (\<lambda>c. (name c, pullRequestsReviewed c)) (slice0 5 sortedByPRsReviewed),
            mostCommentsWritten =
              map (\<lambda>c. (name c, commentsWritten c)) (slice0 5 sortedByComments),
            busiestDaysByCommits = busiestDays cs,
            longestStreaks = Some (map (\<lambda>c. (name c, nat_or0 (longestStreak c)))
              (slice0 5 (filter (\<lambda>c. nat_or0 (longestStreak c) > 0) sortedByStreaks))) \<rparr>,
          contributors))"

text \<open>
  \<^verbatim>\<open>part_001\<close> and \<^verbatim>\<open>part_009\<close> call \<^verbatim>\<open>contributors.sort(..)\<close> on the argument
  itself, once per leaderboard and in the order of the object literal: each sort
  reorders the caller's array in place and the next one starts from that order.
\<close>

definition calculateTop5_part001 :: "contributor list \<Rightarrow> commit list
    \<Rightarrow> top5 \<times> contributor list" where
  "calculateTop5_part001 contributors cs =
     (let c1 = js_sort byCommitsDesc contributors;
          c2 = js_sort byPRsOpenedDesc c1;
          c3 = js_sort byPRsReviewedDesc c2;
          c4 = js_sort byCommentsDesc c3
      in (\<lparr> mostCommits = map (\<lambda>c. (name c, commits c)) (slice0 5 c1),
            mostPullRequestsOpened = map (\<lambda>c. (name c, pullRequestsOpened c)) (slice0 5 c2),
            mostPullRequestsReviewed = map (\<lambda>c. (name c, pullRequestsReviewed c)) (slice0 5 c3),
            mostCommentsWritten = map (\<lambda>c. (name c, commentsWritten c)) (slice0 5 c4),
            busiestDaysByCommits = busiestDays cs,
            longestStreaks = None \<rparr>,
          c4))"

section \<open>Streak calculator: \<^verbatim>\<open>calculateStreaks\<close>\<close>

record streakData =
  overallLongestStreak :: nat
  streaksByAuthor :: "(string \<times> nat) list"

definition collectDate :: "(string \<times> isoDate list) list \<Rightarrow> commit \<Rightarrow> (string \<times> isoDate list) list" where
  "collectDate m c =
     (let author = author_name c;
          d = datePart (author_date c);
          m' = (if \<not> Map_has m author then Map_set author [] m else m)
      in Map_modify author (Set_add d) m')"

definition diffDays :: "isoDate \<Rightarrow> isoDate \<Rightarrow> rat" where
  "diffDays prevDate currDate = of_int (dateTime currDate - dateTime prevDate) / of_int msPerDay"

text \<open>
  The \<^verbatim>\<open>for\<close> loop over \<open>i = 1 ..< length\<close> reads \<open>sortedDates[i - 1]\<close> and
  \<open>sortedDates[i]\<close>: the walk below is at the pair that heads its list.
\<close>

fun streakWalk :: "isoDate list \<Rightarrow> nat \<Rightarrow> nat \<Rightarrow> nat" where
  "streakWalk (prevDate # currDate # rest) currentStreak maxStreak =
     (if diffDays prevDate currDate = 1
      then streakWalk (currDate # rest) (currentStreak + 1) (max maxStreak (currentStreak + 1))
      else streakWalk (currDate # rest) 1 maxStreak)"
| "streakWalk _ currentStreak maxStreak = maxStreak"

definition authorStreak :: "isoDate list \<Rightarrow> nat" where
  "authorStreak dates = streakWalk (sort dates) 1 1"

definition streakEntry :: "nat \<times> (string \<times> nat) list \<Rightarrow> string \<times> isoDate list
    \<Rightarrow> nat \<times> (string \<times> nat) list" where
  "streakEntry acc e = (case (acc, e) of ((longest, byAuthor), (author, dates)) \<Rightarrow>
     (let maxStreak = authorStreak dates
      in (max longest maxStreak, Map_set author maxStreak byAuthor)))"

definition calculateStreaks :: "commit list \<Rightarrow> streakData" where
  "calculateStreaks cs =
     (let commitsByAuthorAndDate = foldl collectDate [] cs;
          (longest, byAuthor) = foldl streakEntry (0, []) commitsByAuthorAndDate
      in \<lparr> overallLongestStreak = longest, streaksByAuthor = byAuthor \<rparr>)"

section \<open>Activity pattern: \<^verbatim>\<open>calculateActivityPattern\<close>\<close>

record activityPattern =
  hourlyDistribution :: "nat list"
  dailyDistribution :: "nat list"
  busiestHour :: int
  busiestDay :: "string option"
  peakProductivityTime :: string

definition dayNames :: "string list" where
  "dayNames = [''Sunday'', ''Monday'', ''Tuesday'', ''Wednesday'', ''Thursday'', ''Friday'',
     ''Saturday'']"

text \<open>\<^verbatim>\<open>xs[i]\<close> is \<^verbatim>\<open>undefined\<close> outside the array: \<open>None\<close>.\<close>

definition arrayAt :: "'a list \<Rightarrow> int \<Rightarrow> 'a option" where
  "arrayAt xs i = (if 0 \<le> i \<and> nat i < length xs then Some (xs ! nat i) else None)"

definition bump :: "nat \<Rightarrow> nat list \<Rightarrow> nat list" where
  "bump i xs = xs[i := xs ! i + 1]"

definition activityStep :: "int \<Rightarrow> nat list \<times> nat list \<Rightarrow> commit \<Rightarrow> nat list \<times> nat list" where
  "activityStep tz s c = (case s of (hourly, daily) \<Rightarrow>
     (bump (getHours tz (author_date c)) hourly, bump (getDay tz (author_date c)) daily))"

definition peakOf :: "int \<Rightarrow> string" where
  "peakOf h =
     (if h \<ge> 5 \<and> h < 12 then ''Morning''
      else if h \<ge> 12 \<and> h < 17 then ''Afternoon''
      else if h \<ge> 17 \<and> h < 21 then ''Evening''
      else ''Night'')"

definition calculateActivityPattern :: "int \<Rightarrow> commit list \<Rightarrow> activityPattern" where
  "calculateActivityPattern tz cs =
     (let (hourly, daily) = foldl (activityStep tz) (replicate 24 0, replicate 7 0) cs;
          bh = indexOfMax hourly;
          busiestDayIndex = indexOfMax daily
      in \<lparr> hourlyDistribution = hourly, dailyDistribution = daily, busiestHour = bh,
           busiestDay = arrayAt dayNames busiestDayIndex,
           peakProductivityTime = peakOf bh \<rparr>)"

section \<open>Highlights: \<^verbatim>\<open>generateHighlights\<close>\<close>

subsection \<open>Numbers in template strings\<close>

text \<open>
  \<^verbatim>\<open>`${n}`\<close> prints a whole number in decimal. \<^verbatim>\<open>n.toLocaleString()\<close> prints it in
  the host's locale; the model takes the \<^verbatim>\<open>en-US\<close> form, digits in groups of three
  separated by commas.
\<close>

definition digitChar :: "nat \<Rightarrow> char" where
  "digitChar n = ''0123456789'' ! (n mod 10)"

fun natToString :: "nat \<Rightarrow> string" where
  "natToString n = (if n < 10 then [digitChar n] else natToString (n div 10) @ [digitChar n])"

declare natToString.simps [simp del]

definition intToString :: "int \<Rightarrow> string" where
  "intToString i = (if i < 0 then CHR ''-'' # natToString (nat (- i)) else natToString (nat i))"

fun toLocaleString :: "nat \<Rightarrow> string" where
  "toLocaleString n =
     (if n < 1000 then natToString n
      else toLocaleString (n div 1000) @ '','' @
           [digitChar (n div 100), digitChar (n div 10), digitChar n])"

declare toLocaleString.simps [simp del]

subsection \<open>Shared pieces\<close>

definition pushIf :: "bool \<Rightarrow> string \<Rightarrow> string list \<Rightarrow> string list" where
  "pushIf c s highlights = (if c then highlights @ [s] else highlights)"

definition mergedPRs :: "pullRequest list \<Rightarrow> nat" where
  "mergedPRs prs = length (filter (\<lambda>pr. status pr = ''completed'') prs)"

definition countType :: "(string \<times> nat) list \<Rightarrow> workItem \<Rightarrow> (string \<times> nat) list" where
  "countType m wi =
     (let ty = (if workItemType wi \<noteq> [] then workItemType wi else ''Unknown'')
      in Map_set ty (nat_or0 (Map_get m ty) + 1) m)"

text \<open>\<^verbatim>\<open>m.get(a) || m.get(b) || 0\<close>: the first count that is present and not 0.\<close>

definition getOr :: "(string \<times> nat) list \<Rightarrow> string \<Rightarrow> string \<Rightarrow> nat" where
  "getOr m a b = (if nat_or0 (Map_get m a) \<noteq> 0 then nat_or0 (Map_get m a) else nat_or0 (Map_get m b))"

definition bugsFixedCount :: "workItem list \<Rightarrow> nat" where
  "bugsFixedCount wis = length (filter isDoneBug wis)"

definition totalStoryPoints :: "workItem list \<Rightarrow> int" where
  "totalStoryPoints wis = foldl (\<lambda>acc wi. acc + or0 (storyPoints wi)) 0 wis"

definition uniqueContributors :: "commit list \<Rightarrow> nat" where
  "uniqueContributors cs = length (foldl (\<lambda>s c. Set_add (author_name c) s) [] cs)"

record codeChanges =
  cc_linesAdded :: nat
  cc_linesDeleted :: nat
  filesChanged :: nat

subsection \<open>\<^verbatim>\<open>azure-devops.ts\<close>\<close>

definition generateHighlights :: "commit list \<Rightarrow> pullRequest list \<Rightarrow> workItem list \<Rightarrow> nat
    \<Rightarrow> codeChanges \<Rightarrow> activityPattern \<Rightarrow> string list" where
  "generateHighlights cs prs wis prComments cc ap =
     (let h1 = pushIf (length cs > 0) (toLocaleString (length cs) @ '' commits pushed'') [];
          h2 = pushIf (length prs > 0) (natToString (mergedPRs prs) @ '' pull requests merged'') h1;
          h3 = pushIf (prComments > 0) (toLocaleString prComments @ '' code review comments'') h2;
          h4 = pushIf (cc_linesAdded cc > 0 \<or> cc_linesDeleted cc > 0)
                 (toLocaleString (filesChanged cc) @ '' files modified'') h3;
          workItemsByType = foldl countType [] wis;
          bugs = nat_or0 (Map_get workItemsByType ''Bug'');
          bugsFixed = bugsFixedCount wis;
          h5 = (if bugsFixed > 0
                then h4 @ [natToString bugsFixed @ '' bugs squashed out of '' @ natToString bugs @ '' total'']
                else if bugs > 0 then h4 @ [natToString bugs @ '' bugs tracked'']
                else h4);
          features = getOr workItemsByType ''Feature'' ''User Story'';
          h6 = pushIf (features > 0) (natToString features @ '' features delivered'') h5;
          testCases = getOr workItemsByType ''Test Case'' ''Test Plan'';
          h7 = pushIf (testCases > 0) (natToString testCases @ '' test cases created'') h6;
          srds = getOr workItemsByType ''Requirement'' ''SRD'';
          h8 = pushIf (srds > 0) (natToString srds @ '' requirements documented'') h7;
          sp = totalStoryPoints wis;
          h9 = pushIf (sp > 0) (intToString sp @ '' story points delivered'') h8;
          uc = uniqueContributors cs;
          h10 = pushIf (uc > 0) (natToString uc @ '' team members contributed'') h9;
          h11 = pushIf (peakProductivityTime ap \<noteq> [])
                  (''Peak productivity: '' @ peakProductivityTime ap @ '' ('' @
                   intToString (busiestHour ap) @ '':00)'') h10
      in slice0 10 h11)"

subsection \<open>\<^verbatim>\<open>unnamed/part_001\<close>\<close>

definition generateHighlights_part001 :: "commit list \<Rightarrow> pullRequest list \<Rightarrow> workItem list
    \<Rightarrow> nat \<Rightarrow> string list" where
  "generateHighlights_part001 cs prs wis prComments =
     (let h1 = pushIf (length cs > 0) (toLocaleString (length cs) @ '' commits pushed'') [];
          h2 = pushIf (length prs > 0) (natToString (mergedPRs prs) @ '' pull requests merged'') h1;
          h3 = pushIf (prComments > 0) (natToString prComments @ '' code review comments'') h2;
          workItemsByType = foldl countType [] wis;
          bugs = nat_or0 (Map_get workItemsByType ''Bug'');
          bugsFixed = bugsFixedCount wis;
          h5 = (if bugsFixed > 0
                then h3 @ [natToString bugsFixed @ '' bugs squashed out of '' @ natToString bugs @ '' total'']
                else if bugs > 0 then h3 @ [natToString bugs @ '' bugs tracked'']
                else h3);
          features = getOr workItemsByType ''Feature'' ''User Story'';
          h6 = pushIf (features > 0) (natToString features @ '' features delivered'') h5;
          testCases = getOr workItemsByType ''Test Case'' ''Test Plan'';
          h7 = pushIf (testCases > 0) (natToString testCases @ '' test cases created'') h6;
          srds = getOr workItemsByType ''Requirement'' ''SRD'';
          h8 = pushIf (srds > 0) (natToString srds @ '' requirements documented'') h7;
          sp = totalStoryPoints wis;
          h9 = pushIf (sp > 0) (intToString sp @ '' story points delivered'') h8;
          uc = uniqueContributors cs;
          h10 = pushIf (uc > 0) (natToString uc @ '' team members contributed'') h9
      in slice0 8 h10)"

subsection \<open>\<^verbatim>\<open>unnamed/part_009\<close>\<close>

definition generateHighlights_part009 :: "commit list \<Rightarrow> pullRequest list \<Rightarrow> workItem list
    \<Rightarrow> string list" where
  "generateHighlights_part009 cs prs wis =
     (let h1 = pushIf (length cs > 0) (toLocaleString (length cs) @ '' commits pushed'') [];
          h2 = pushIf (length prs > 0) (natToString (mergedPRs prs) @ '' pull requests merged'') h1;
          bugsFixed = bugsFixedCount wis;
          h3 = pushIf (bugsFixed > 0) (natToString bugsFixed @ '' bugs squashed'') h2;
          sp = totalStoryPoints wis;
          h4 = pushIf (sp > 0) (intToString sp @ '' story points delivered'') h3;
          uc = uniqueContributors cs;
          h5 = pushIf (uc > 0) (natToString uc @ '' team members contributed'') h4;
          features = length (filter (\<lambda>wi. workItemType wi = ''User Story'') wis);
          h6 = pushIf (features > 0) (natToString features @ '' user stories completed'') h5
      in slice0 6 h6)"

section \<open>Milestones: \<^verbatim>\<open>generateMilestones\<close>\<close>

record milestone =
  date :: isoDate
  title :: string
  description :: string
  icon :: string

definition byCommitTime :: "commit \<Rightarrow> commit \<Rightarrow> int" where
  "byCommitTime a b = getTime (author_date a) - getTime (author_date b)"

definition byMilestoneDate :: "milestone \<Rightarrow> milestone \<Rightarrow> int" where
  "byMilestoneDate a b = dateTime (date a) - dateTime (date b)"

text \<open>\<^verbatim>\<open>comment?.substring(0, 50) || "Initial commit"\<close>\<close>

definition firstCommitDescription :: "commit \<Rightarrow> string" where
  "firstCommitDescription c = (if take 50 (comment c) \<noteq> [] then take 50 (comment c) else ''Initial commit'')"

text \<open>
  The block guarded by \<^verbatim>\<open>commits.length > 0\<close>: the sorted copy has the length of
  \<open>commits\<close>, so both reads are inside it.
\<close>

definition commitMilestones :: "commit list \<Rightarrow> milestone list" where
  "commitMilestones cs =
     (let sortedCommits = js_sort byCommitTime cs;
          midIndex = length sortedCommits div 2
      in [\<lparr> date = datePart (author_date (sortedCommits ! 0)), title = ''First Commit'',
             description = firstCommitDescription (sortedCommits ! 0), icon = ''lightbulb'' \<rparr>,
          \<lparr> date = datePart (author_date (sortedCommits ! midIndex)), title = ''Halfway Point'',
             description = natToString midIndex @ '' commits so far'', icon = ''flag'' \<rparr>])"

definition generateMilestones :: "commit list \<Rightarrow> pullRequest list \<Rightarrow> workItem list
    \<Rightarrow> isoDate option \<Rightarrow> isoDate option \<Rightarrow> milestone list" where
  "generateMilestones cs prs wis dateFrom dateTo =
     (let m1 = (case dateFrom of
                  None \<Rightarrow> []
                | Some f \<Rightarrow> [\<lparr> date = f, title = ''Period Start'',
                     description = ''Beginning of the tracking period'', icon = ''rocket'' \<rparr>]);
          m2 = (if length cs > 0 then m1 @ commitMilestones cs else m1);
          m3 = (case dateTo of
                  None \<Rightarrow> m2
                | Some t \<Rightarrow> if length prs \<ge> 100
                    then m2 @ [\<lparr> date = t, title = ''100 PRs Milestone'',
                      description = ''Team collaboration at scale'', icon = ''party'' \<rparr>]
                    else m2);
          m4 = (case dateTo of
                  None \<Rightarrow> m3
                | Some t \<Rightarrow> m3 @ [\<lparr> date = t, title = ''Period End'',
                     description = ''End of tracking period'', icon = ''lock'' \<rparr>])
      in js_sort byMilestoneDate m4)"

section \<open>Summary assembler: the body of \<^verbatim>\<open>fetchAzureDevOpsData\<close> after the fetches\<close>

text \<open>
  \<^verbatim>\<open>dateFrom && dateTo ? Math.floor((to - from) / (14 * 24 * 60 * 60 * 1000)) : 0\<close>;
  an empty \<^verbatim>\<open>dateFrom\<close> or \<^verbatim>\<open>dateTo\<close> is an absent one.
\<close>

definition sprintsCompleted :: "isoDate option \<Rightarrow> isoDate option \<Rightarrow> int" where
  "sprintsCompleted dateFrom dateTo =
     (case (dateFrom, dateTo) of
        (Some f, Some t) \<Rightarrow>
          \<lfloor>(of_int (dateTime t - dateTime f) :: rat) / of_int (14 * 24 * 60 * 60 * 1000)\<rfloor>
      | _ \<Rightarrow> 0)"

record summary =
  stats_totalCommits :: nat
  stats_sprintsCompleted :: int
  contributors :: "contributor list"
  summary_top5 :: top5
  highlights :: "string list"
  milestones :: "milestone list"

text \<open>
  The merge times per author (the map that \<^verbatim>\<open>calculatePrMergeStats\<close> returns), the
  number of review comments and the code-change totals (\<^verbatim>\<open>aggregateCodeChanges\<close>) are
  arguments here; the summary record holds the fields the properties below speak of.
\<close>

definition fetchAzureDevOpsData :: "int \<Rightarrow> commit list \<Rightarrow> pullRequest list \<Rightarrow> workItem list
    \<Rightarrow> nat \<Rightarrow> codeChanges \<Rightarrow> (string \<times> rat list) list \<Rightarrow> isoDate option \<Rightarrow> isoDate option
    \<Rightarrow> summary" where
  "fetchAzureDevOpsData tz cs prs wis prComments cc mergeTimeByAuthor dateFrom dateTo =
     (let ap = calculateActivityPattern tz cs;
          sd = calculateStreaks cs;
          contributorStats =
            aggregateContributorStats tz cs prs wis mergeTimeByAuthor (streaksByAuthor sd);
          (t5, contributorStats') = calculateTop5 contributorStats cs (streaksByAuthor sd);
          hl = generateHighlights cs prs wis prComments cc ap;
          ms = generateMilestones cs prs wis dateFrom dateTo
      in \<lparr> stats_totalCommits = length cs,
           stats_sprintsCompleted = sprintsCompleted dateFrom dateTo,
           contributors = contributorStats', summary_top5 = t5, highlights = hl,
           milestones = ms \<rparr>)"

definition fetchAzureDevOpsData_part001 :: "commit list \<Rightarrow> pullRequest list \<Rightarrow> workItem list
    \<Rightarrow> nat \<Rightarrow> isoDate option \<Rightarrow> isoDate option \<Rightarrow> summary" where
  "fetchAzureDevOpsData_part001 cs prs wis prComments dateFrom dateTo =
     (let contributorStats = aggregateContributorStats_part001 cs prs wis;
          (t5, contributorStats') = calculateTop5_part001 contributorStats cs;
          hl = generateHighlights_part001 cs prs wis prComments;
          ms = generateMilestones cs prs wis dateFrom dateTo
      in \<lparr> stats_totalCommits = length cs,
           stats_sprintsCompleted = sprintsCompleted dateFrom dateTo,
           contributors = contributorStats', summary_top5 = t5, highlights = hl,
           milestones = ms \<rparr>)"

section \<open>Notions the properties are stated with\<close>

text \<open>The sum of the commit counts held in a contributor map.\<close>

definition totalCommits :: "contributorMap \<Rightarrow> nat" where
  "totalCommits cm = sum_list (map commits (Map_values cm))"

text \<open>The days, numbered from 1970-01-01, on which an author has a commit.\<close>

definition commitDays :: "commit list \<Rightarrow> string \<Rightarrow> int set" where
  "commitDays cs a = dayNumber ` {datePart (author_date c) | c. c \<in> set cs \<and> author_name c = a}"

text \<open>
  \<open>n\<close> is the length of the longest run of consecutive days in \<open>S\<close>: some \<open>n\<close>
  days in a row are all in \<open>S\<close>, and no run of days in \<open>S\<close> is longer.
\<close>

definition longest_run :: "int set \<Rightarrow> nat \<Rightarrow> bool" where
  "longest_run S n =
     ((\<exists>a. \<forall>i<n. a + int i \<in> S) \<and> (\<forall>a k. (\<forall>i<k. a + int i \<in> S) \<longrightarrow> k \<le> n))"

text \<open>Descending by commit count.\<close>

definition commitsDescending :: "contributor list \<Rightarrow> bool" where
  "commitsDescending xs = sorted (map (\<lambda>c. - int (commits c)) xs)"

text \<open>No record of a contributor map has a comment counted.\<close>

abbreviation noComments :: "contributorMap \<Rightarrow> bool" where
  "noComments cm \<equiv> list_all (\<lambda>k. commentsWritten k = 0) (Map_values cm)"

section \<open>Properties of the aggregator\<close>

subsection \<open>Maps\<close>

lemma Map_has_iff: "Map_has m k = (k \<in> fst ` set m)"
  by (simp add: Map_has_def map_of_eq_None_iff)

lemma keys_Map_set: "fst ` set (Map_set k v m) = insert k (fst ` set m)"
  by (induction k v m rule: Map_set.induct) (simp_all add: insert_commute)

lemma keys_Map_modify: "map fst (Map_modify k f m) = map fst m"
  by (induction k f m rule: Map_modify.induct) simp_all

lemma Map_has_Map_set: "Map_has (Map_set k v m) k' = (k' = k \<or> Map_has m k')"
  by (simp add: Map_has_iff keys_Map_set)

lemma Map_has_Map_modify: "Map_has (Map_modify k f m) k' = Map_has m k'"
proof -
  have "set (map fst (Map_modify k f m)) = set (map fst m)"
    by (simp only: keys_Map_modify)
  then show ?thesis by (simp add: Map_has_iff)
qed

lemma Map_set_fresh: "\<not> Map_has m k \<Longrightarrow> Map_set k v m = m @ [(k, v)]"
  by (induction m) (auto simp: Map_has_iff)

lemma totalCommits_append: "totalCommits (m @ m') = totalCommits m + totalCommits m'"
  by (simp add: totalCommits_def Map_values_def)

lemma totalCommits_modify_same:
  "(\<And>k. commits (f k) = commits k) \<Longrightarrow> totalCommits (Map_modify n f m) = totalCommits m"
  by (induction m) (auto simp: totalCommits_def Map_values_def)

lemma totalCommits_modify_inc:
  "Map_has m n \<Longrightarrow> totalCommits (Map_modify n (\<lambda>k. k\<lparr>commits := Suc (commits k)\<rparr>) m) = Suc (totalCommits m)"
proof (induction m)
  case Nil
  then show ?case by (simp add: Map_has_iff)
next
  case (Cons e m)
  obtain k' v where e: "e = (k', v)" by (cases e)
  show ?case
  proof (cases "k' = n")
    case True
    then show ?thesis by (simp add: e totalCommits_def Map_values_def)
  next
    case False
    then have "Map_has m n" using Cons.prems by (simp add: e Map_has_iff)
    then show ?thesis using Cons.IH False by (simp add: e totalCommits_def Map_values_def)
  qed
qed

lemma ensure_has: "Map_has (fst (ensureContributor n s)) n"
  by (cases s) (auto simp: ensureContributor_def Map_has_Map_set)

lemma ensure_total: "totalCommits (fst (ensureContributor n s)) = totalCommits (fst s)"
  by (cases s) (auto simp: ensureContributor_def Map_set_fresh totalCommits_append, simp add: totalCommits_def Map_values_def newContributor_def)

lemma commitStep_total: "totalCommits (fst (commitStep tz s c)) = totalCommits (fst s) + 1"
proof -
  obtain cm hm where e: "ensureContributor (author_name c) s = (cm, hm)" by (cases "ensureContributor (author_name c) s")
  have "Map_has cm (author_name c)" using ensure_has[of "author_name c" s] e by simp
  moreover have "totalCommits cm = totalCommits (fst s)" using ensure_total[of "author_name c" s] e by simp
  ultimately show ?thesis by (simp add: commitStep_def e Let_def totalCommits_modify_inc)
qed

lemma commitLoop_total: "totalCommits (fst (foldl (commitStep tz) s cs)) = totalCommits (fst s) + length cs"
  by (induction cs arbitrary: s) (auto simp: commitStep_total)

lemma reviewerStep_total: "totalCommits (fst (reviewerStep s r)) = totalCommits (fst s)"
proof -
  obtain cm hm where e: "ensureContributor (displayName r) s = (cm, hm)" by (cases "ensureContributor (displayName r) s")
  have "totalCommits cm = totalCommits (fst s)" using ensure_total[of "displayName r" s] e by simp
  then show ?thesis by (simp add: reviewerStep_def e totalCommits_modify_same)
qed

lemma reviewerLoop_total: "totalCommits (fst (foldl reviewerStep s rs)) = totalCommits (fst s)"
  by (induction rs arbitrary: s) (auto simp: reviewerStep_total)

lemma prStep_total: "totalCommits (fst (prStep s pr)) = totalCommits (fst s)"
proof -
  obtain cm hm where e: "ensureContributor (createdBy pr) s = (cm, hm)" by (cases "ensureContributor (createdBy pr) s")
  have "totalCommits cm = totalCommits (fst s)" using ensure_total[of "createdBy pr" s] e by simp
  then show ?thesis by (simp add: prStep_def e Let_def reviewerLoop_total totalCommits_modify_same)
qed

lemma prLoop_total: "totalCommits (fst (foldl prStep s prs)) = totalCommits (fst s)"
  by (induction prs arbitrary: s) (auto simp: prStep_total)

lemma workItemStep_total: "totalCommits (workItemStep cm wi) = totalCommits cm"
  by (simp add: workItemStep_def Let_def totalCommits_modify_same split: option.splits)

lemma workItemLoop_total: "totalCommits (foldl workItemStep cm wis) = totalCommits cm"
  by (induction wis arbitrary: cm) (auto simp: workItemStep_total)

lemma enrich_commits: "commits (snd (enrich mt st hm e)) = commits (snd e)"
  by (cases e) (simp add: enrich_def Let_def split: option.splits)

lemma enrich_total: "totalCommits (map (enrich mt st hm) cm) = totalCommits cm"
  by (induction cm) (auto simp: totalCommits_def Map_values_def enrich_commits)

lemma ensure_part001_has: "Map_has (ensureContributor_part001 n cm) n"
  by (simp add: ensureContributor_part001_def Map_has_Map_set)

lemma ensure_part001_total: "totalCommits (ensureContributor_part001 n cm) = totalCommits cm"
  by (simp add: ensureContributor_part001_def Map_set_fresh totalCommits_append)
     (simp add: totalCommits_def Map_values_def newContributor_part001_def)

lemma commitStep_part001_total: "totalCommits (commitStep_part001 cm c) = Suc (totalCommits cm)"
  by (simp add: commitStep_part001_def totalCommits_modify_inc ensure_part001_has ensure_part001_total)

lemma commitLoop_part001_total:
  "totalCommits (foldl commitStep_part001 cm cs) = totalCommits cm + length cs"
  by (induction cs arbitrary: cm) (auto simp: commitStep_part001_total)

lemma reviewerLoop_part001_total:
  "totalCommits (foldl reviewerStep_part001 cm rs) = totalCommits cm"
  by (induction rs arbitrary: cm)
     (auto simp: reviewerStep_part001_def totalCommits_modify_same ensure_part001_total)

lemma prLoop_part001_total: "totalCommits (foldl prStep_part001 cm prs) = totalCommits cm"
  by (induction prs arbitrary: cm)
     (auto simp: prStep_part001_def reviewerLoop_part001_total totalCommits_modify_same
        ensure_part001_total)

text \<open>
  C1. In both variants of \<^verbatim>\<open>aggregateContributorStats\<close> the commit counts held in the
  contributor map sum to the length of the commit list, whatever the pull requests and
  work items are.
\<close>

theorem commit_counts_sum_to_length:
  "totalCommits (contributorMapOf tz cs prs wis mt st) = length cs
   \<and> totalCommits (contributorMapOf_part001 cs prs wis) = length cs"
proof
  obtain cm2 hm where e: "foldl prStep (foldl (commitStep tz) ([], []) cs) prs = (cm2, hm)"
    by (cases "foldl prStep (foldl (commitStep tz) ([], []) cs) prs")
  have "totalCommits cm2 = length cs"
    using prLoop_total[of "foldl (commitStep tz) ([], []) cs" prs] commitLoop_total[of tz "([], [])" cs] e
    by (simp add: totalCommits_def Map_values_def)
  then show "totalCommits (contributorMapOf tz cs prs wis mt st) = length cs"
    by (simp add: contributorMapOf_def e Let_def enrich_total workItemLoop_total)
  show "totalCommits (contributorMapOf_part001 cs prs wis) = length cs"
    by (simp add: contributorMapOf_part001_def workItemLoop_total prLoop_part001_total
        commitLoop_part001_total)
      (simp add: totalCommits_def Map_values_def)
qed

subsection \<open>Sorting\<close>

lemma insert_by_insort_key:
  fixes key :: "'a \<Rightarrow> int"
  assumes "\<And>a b. cmp a b = key a - key b"
  shows "insert_by cmp x ys = insort_key key x ys"
  by (induction ys) (simp_all add: assms)

lemma js_sort_sort_key:
  fixes key :: "'a \<Rightarrow> int"
  assumes "\<And>a b. cmp a b = key a - key b"
  shows "js_sort cmp xs = sort_key key xs"
proof -
  have "insert_by cmp = insort_key key"
    using insert_by_insort_key[OF assms] by (intro ext)
  then show ?thesis by (simp add: js_sort_def sort_key_def)
qed

lemma js_sort_byCommitsDesc: "js_sort byCommitsDesc xs = sort_key (\<lambda>c. - int (commits c)) xs"
  by (rule js_sort_sort_key) (simp add: byCommitsDesc_def)

lemma js_sort_byCommentsDesc: "js_sort byCommentsDesc xs = sort_key (\<lambda>c. - int (commentsWritten c)) xs"
  by (rule js_sort_sort_key) (simp add: byCommentsDesc_def)

lemma js_sort_byMilestoneDate: "js_sort byMilestoneDate xs = sort_key (\<lambda>m. dateTime (date m)) xs"
  by (rule js_sort_sort_key) (simp add: byMilestoneDate_def)

lemma js_sort_byCommitTime: "js_sort byCommitTime xs = sort_key (\<lambda>c. getTime (author_date c)) xs"
  by (rule js_sort_sort_key) (simp add: byCommitTime_def)

lemma commitsDescending_js_sort: "commitsDescending (js_sort byCommitsDesc xs)"
  by (simp add: commitsDescending_def js_sort_byCommitsDesc)

lemma commitsDescending_take: "commitsDescending xs \<Longrightarrow> commitsDescending (take n xs)"
  by (simp add: commitsDescending_def take_map[symmetric] sorted_wrt_take)

lemma js_sort_id: "commitsDescending xs \<Longrightarrow> js_sort byCommitsDesc xs = xs"
  by (simp add: commitsDescending_def js_sort_byCommitsDesc sort_key_id_if_sorted)

lemma top5_of_top10:
  "take 5 (js_sort byCommitsDesc (take 10 (js_sort byCommitsDesc xs))) = take 5 (js_sort byCommitsDesc xs)"
  by (simp add: js_sort_id commitsDescending_take commitsDescending_js_sort min_def)

lemma js_sort_byCommitsDesc_perm: "mset (js_sort byCommitsDesc xs) = mset xs"
  by (simp add: js_sort_byCommitsDesc)

lemma set_js_sort_byCommitsDesc: "set (js_sort byCommitsDesc xs) = set xs"
  by (simp add: js_sort_byCommitsDesc)

lemma set_js_sort_byCommentsDesc: "set (js_sort byCommentsDesc xs) = set xs"
  by (simp add: js_sort_byCommentsDesc)

subsection \<open>The leaderboard of commits\<close>

text \<open>
  C2. The "most commits" leaderboard that \<^verbatim>\<open>calculateTop5\<close> builds from the list
  \<^verbatim>\<open>aggregateContributorStats\<close> returns (the first ten by commit count) is a subsequence
  of the full contributor list sorted descending by commit count, entry by entry, and
  has \<open>min 5 n\<close> entries for \<open>n\<close> contributors.
\<close>

theorem mostCommits_of_full_list:
  "subseq
     (mostCommits (fst (calculateTop5 (aggregateContributorStats tz cs prs wis mt st) cs st')))
     (map (\<lambda>c. (name c, commits c))
        (js_sort byCommitsDesc (Map_values (contributorMapOf tz cs prs wis mt st))))
   \<and> length (mostCommits (fst (calculateTop5 (aggregateContributorStats tz cs prs wis mt st) cs st')))
       = min 5 (length (Map_values (contributorMapOf tz cs prs wis mt st)))"
proof -
  let ?full = "Map_values (contributorMapOf tz cs prs wis mt st)"
  have top: "mostCommits (fst (calculateTop5 (aggregateContributorStats tz cs prs wis mt st) cs st'))
      = map (\<lambda>c. (name c, commits c)) (take 5 (js_sort byCommitsDesc ?full))"
    by (simp add: calculateTop5_def Let_def aggregateContributorStats_def slice0_def top5_of_top10)
  have "subseq (take 5 (js_sort byCommitsDesc ?full)) (js_sort byCommitsDesc ?full)"
    by (rule prefix_imp_subseq) (rule take_is_prefix)
  then have "subseq (map (\<lambda>c. (name c, commits c)) (take 5 (js_sort byCommitsDesc ?full)))
      (map (\<lambda>c. (name c, commits c)) (js_sort byCommitsDesc ?full))"
    by (rule subseq_map)
  moreover have "length (take 5 (js_sort byCommitsDesc ?full)) = min 5 (length ?full)"
    by (simp add: js_sort_byCommitsDesc min.commute)
  ultimately show ?thesis by (simp only: top length_map)
qed

subsection \<open>Comments written\<close>

lemma Map_set_all:
  "P v \<Longrightarrow> list_all P (Map_values cm) \<Longrightarrow> list_all P (Map_values (Map_set n v cm))"
  by (induction n v cm rule: Map_set.induct) (simp_all add: Map_values_def)

lemma Map_modify_all:
  "(\<And>k. P k \<Longrightarrow> P (f k)) \<Longrightarrow> list_all P (Map_values cm)
    \<Longrightarrow> list_all P (Map_values (Map_modify n f cm))"
  by (induction n f cm rule: Map_modify.induct) (simp_all add: Map_values_def)

lemma ensure_noComments: "noComments (fst s) \<Longrightarrow> noComments (fst (ensureContributor n s))"
  by (cases s) (simp add: ensureContributor_def Map_set_all newContributor_def)

lemma commitStep_noComments: "noComments (fst s) \<Longrightarrow> noComments (fst (commitStep tz s c))"
proof -
  assume a: "noComments (fst s)"
  obtain cm hm where e: "ensureContributor (author_name c) s = (cm, hm)"
    by (cases "ensureContributor (author_name c) s")
  have "noComments cm" using ensure_noComments[OF a, of "author_name c"] e by simp
  then show ?thesis by (simp add: commitStep_def e Let_def Map_modify_all)
qed

lemma commitLoop_noComments:
  "noComments (fst s) \<Longrightarrow> noComments (fst (foldl (commitStep tz) s cs))"
  by (induction cs arbitrary: s) (simp_all add: commitStep_noComments)

lemma reviewerStep_noComments: "noComments (fst s) \<Longrightarrow> noComments (fst (reviewerStep s r))"
proof -
  assume a: "noComments (fst s)"
  obtain cm hm where e: "ensureContributor (displayName r) s = (cm, hm)"
    by (cases "ensureContributor (displayName r) s")
  have "noComments cm" using ensure_noComments[OF a, of "displayName r"] e by simp
  then show ?thesis by (simp add: reviewerStep_def e Map_modify_all)
qed

lemma reviewerLoop_noComments:
  "noComments (fst s) \<Longrightarrow> noComments (fst (foldl reviewerStep s rs))"
  by (induction rs arbitrary: s) (simp_all add: reviewerStep_noComments)

lemma prStep_noComments: "noComments (fst s) \<Longrightarrow> noComments (fst (prStep s pr))"
proof -
  assume a: "noComments (fst s)"
  obtain cm hm where e: "ensureContributor (createdBy pr) s = (cm, hm)"
    by (cases "ensureContributor (createdBy pr) s")
  have "noComments cm" using ensure_noComments[OF a, of "createdBy pr"] e by simp
  then show ?thesis by (simp add: prStep_def e Let_def reviewerLoop_noComments Map_modify_all)
qed

lemma prLoop_noComments: "noComments (fst s) \<Longrightarrow> noComments (fst (foldl prStep s prs))"
  by (induction prs arbitrary: s) (simp_all add: prStep_noComments)

lemma workItemStep_noComments: "noComments cm \<Longrightarrow> noComments (workItemStep cm wi)"
  by (simp add: workItemStep_def Let_def Map_modify_all split: option.splits)

lemma workItemLoop_noComments: "noComments cm \<Longrightarrow> noComments (foldl workItemStep cm wis)"
  by (induction wis arbitrary: cm) (simp_all add: workItemStep_noComments)

lemma enrich_commentsWritten: "commentsWritten (snd (enrich mt st hm e)) = commentsWritten (snd e)"
  by (cases e) (simp add: enrich_def Let_def split: option.splits)

lemma enrich_noComments: "noComments cm \<Longrightarrow> noComments (map (enrich mt st hm) cm)"
  by (induction cm) (simp_all add: Map_values_def enrich_commentsWritten)

lemma contributorMapOf_noComments: "noComments (contributorMapOf tz cs prs wis mt st)"
proof -
  obtain cm2 hm where e: "foldl prStep (foldl (commitStep tz) ([], []) cs) prs = (cm2, hm)"
    by (cases "foldl prStep (foldl (commitStep tz) ([], []) cs) prs")
  have "noComments (fst (foldl (commitStep tz) ([], []) cs))"
    by (rule commitLoop_noComments) (simp add: Map_values_def)
  then have "noComments cm2"
    using prLoop_noComments[of "foldl (commitStep tz) ([], []) cs" prs] e by simp
  then show ?thesis
    by (simp add: contributorMapOf_def e Let_def enrich_noComments workItemLoop_noComments)
qed

text \<open>
  C9. Every contributor record that \<^verbatim>\<open>aggregateContributorStats\<close> returns has
  \<open>commentsWritten = 0\<close>, and so every entry of the \<open>mostCommentsWritten\<close> leaderboard
  computed from them carries the count 0.
\<close>

theorem commentsWritten_always_zero:
  "(\<forall>k \<in> set (aggregateContributorStats tz cs prs wis mt st). commentsWritten k = 0)
   \<and> (\<forall>e \<in> set (mostCommentsWritten
          (fst (calculateTop5 (aggregateContributorStats tz cs prs wis mt st) cs st'))).
        snd e = 0)"
proof -
  have all: "\<forall>k \<in> set (aggregateContributorStats tz cs prs wis mt st). commentsWritten k = 0"
  proof
    fix k assume "k \<in> set (aggregateContributorStats tz cs prs wis mt st)"
    then have "k \<in> set (Map_values (contributorMapOf tz cs prs wis mt st))"
      by (auto simp: aggregateContributorStats_def slice0_def set_js_sort_byCommitsDesc
          dest: in_set_takeD)
    then show "commentsWritten k = 0"
      using contributorMapOf_noComments[of tz cs prs wis mt st] by (simp add: list_all_iff)
  qed
  have "\<forall>e \<in> set (mostCommentsWritten
          (fst (calculateTop5 (aggregateContributorStats tz cs prs wis mt st) cs st'))).
        snd e = 0"
  proof
    fix e assume "e \<in> set (mostCommentsWritten
          (fst (calculateTop5 (aggregateContributorStats tz cs prs wis mt st) cs st')))"
    then obtain k where k: "k \<in> set (take 5 (js_sort byCommentsDesc
          (aggregateContributorStats tz cs prs wis mt st)))" and e: "e = (name k, commentsWritten k)"
      by (auto simp: calculateTop5_def Let_def slice0_def)
    from k have "k \<in> set (aggregateContributorStats tz cs prs wis mt st)"
      using set_js_sort_byCommentsDesc by (metis in_set_takeD)
    then show "snd e = 0" using all e by simp
  qed
  with all show ?thesis by blast
qed

theorem commentsWritten_always_zero_witness:
  "aggregateContributorStats 0
      [\<lparr> commitId = ''c1'', author_name = ''Ana'',
          author_date = \<lparr> datePart = (2024, 3, 15), msOfDay = 36000000 \<rparr>, comment = ''init'' \<rparr>]
      [] [] [] [] \<noteq> []
   \<and> commentsWritten (hd (aggregateContributorStats 0
      [\<lparr> commitId = ''c1'', author_name = ''Ana'',
          author_date = \<lparr> datePart = (2024, 3, 15), msOfDay = 36000000 \<rparr>, comment = ''init'' \<rparr>]
      [] [] [] [])) = 0"
proof -
  let ?cs = "[\<lparr> commitId = ''c1'', author_name = ''Ana'',
          author_date = \<lparr> datePart = (2024, 3, 15), msOfDay = 36000000 \<rparr>, comment = ''init'' \<rparr>]"
  have ne: "aggregateContributorStats 0 ?cs [] [] [] [] \<noteq> []"
    by (simp add: aggregateContributorStats_def contributorMapOf_def commitStep_def
        ensureContributor_def Map_has_def js_sort_def slice0_def Map_values_def enrich_def
        Map_get_def Let_def)
  then have "hd (aggregateContributorStats 0 ?cs [] [] [] []) \<in> set (aggregateContributorStats 0 ?cs [] [] [] [])"
    by simp
  then show ?thesis
    using ne commentsWritten_always_zero[of 0 ?cs "[]" "[]" "[]" "[]" "[]"] by blast
qed

subsection \<open>Work items\<close>

lemma Map_modify_twice: "Map_modify a g (Map_modify a f cm) = Map_modify a (\<lambda>k. g (f k)) cm"
  by (induction a f cm rule: Map_modify.induct) simp_all

lemma Map_modify_cong: "(\<And>k. f k = g k) \<Longrightarrow> Map_modify a f cm = Map_modify a g cm"
  by (induction a f cm rule: Map_modify.induct) simp_all

text \<open>
  C3, as the code has it. A work item without an assignee, with an assignee whose display
  name is empty, or with an assignee who is not a key of the contributor map leaves the
  map as it is. For an assignee with a non-empty name who is a key, the one record under
  that key gets \<open>bugsFixed\<close> raised by one exactly when the item is a \<open>Bug\<close> in state
  \<open>Done\<close>, and the story points of the item (0 when absent) added to
  \<open>storyPointsDone\<close> whatever its type and state.
\<close>

theorem workItemStep_effect:
  "(assignedTo wi = None \<longrightarrow> workItemStep cm wi = cm)
   \<and> (\<forall>a. assignedTo wi = Some a \<and> (a = [] \<or> \<not> Map_has cm a) \<longrightarrow> workItemStep cm wi = cm)
   \<and> (\<forall>a. assignedTo wi = Some a \<and> a \<noteq> [] \<and> Map_has cm a \<longrightarrow>
         workItemStep cm wi =
           Map_modify a (\<lambda>k. k\<lparr> bugsFixed := bugsFixed k + (if isDoneBug wi then 1 else 0),
                                 storyPointsDone := storyPointsDone k + or0 (storyPoints wi) \<rparr>) cm)"
proof (intro conjI allI impI)
  show "workItemStep cm wi = cm" if "assignedTo wi = None"
    using that by (simp add: workItemStep_def)
  show "workItemStep cm wi = cm" if "assignedTo wi = Some a \<and> (a = [] \<or> \<not> Map_has cm a)" for a
    using that by (auto simp: workItemStep_def)
  show "workItemStep cm wi =
      Map_modify a (\<lambda>k. k\<lparr> bugsFixed := bugsFixed k + (if isDoneBug wi then 1 else 0),
                            storyPointsDone := storyPointsDone k + or0 (storyPoints wi) \<rparr>) cm"
    if "assignedTo wi = Some a \<and> a \<noteq> [] \<and> Map_has cm a" for a
  proof (cases "isDoneBug wi")
    case True
    with that show ?thesis
      by (simp add: workItemStep_def Let_def Map_modify_twice)
  next
    case False
    with that show ?thesis
      by (simp add: workItemStep_def Let_def)
  qed
qed

theorem workItemStep_effect_witness:
  "workItemStep [(''Ana'', newContributor ''Ana'')]
      \<lparr> wi_id = 1, workItemType = ''Bug'', wi_state = ''Done'', assignedTo = None,
        storyPoints = Some 5, areaPath = None \<rparr>
     = [(''Ana'', newContributor ''Ana'')]
   \<and> workItemStep [(''Ana'', newContributor ''Ana'')]
      \<lparr> wi_id = 2, workItemType = ''Bug'', wi_state = ''Done'', assignedTo = Some ''Bo'',
        storyPoints = Some 5, areaPath = None \<rparr>
     = [(''Ana'', newContributor ''Ana'')]
   \<and> workItemStep [(''Ana'', newContributor ''Ana'')]
      \<lparr> wi_id = 3, workItemType = ''Feature'', wi_state = ''Active'', assignedTo = Some ''Ana'',
        storyPoints = Some 5, areaPath = None \<rparr>
     = [(''Ana'', (newContributor ''Ana'')\<lparr> bugsFixed := 0, storyPointsDone := 5 \<rparr>)]"
proof -
  let ?cm = "[(''Ana'', newContributor ''Ana'')]"
  let ?w1 = "\<lparr> wi_id = 1, workItemType = ''Bug'', wi_state = ''Done'', assignedTo = None,
        storyPoints = Some 5, areaPath = None \<rparr>"
  let ?w2 = "\<lparr> wi_id = 2, workItemType = ''Bug'', wi_state = ''Done'', assignedTo = Some ''Bo'',
        storyPoints = Some 5, areaPath = None \<rparr>"
  let ?w3 = "\<lparr> wi_id = 3, workItemType = ''Feature'', wi_state = ''Active'', assignedTo = Some ''Ana'',
        storyPoints = Some 5, areaPath = None \<rparr>"
  have h1: "assignedTo ?w1 = None" by simp
  have h2: "assignedTo ?w2 = Some ''Bo'' \<and> (''Bo'' = [] \<or> \<not> Map_has ?cm ''Bo'')"
    by (simp add: Map_has_def)
  have h3: "assignedTo ?w3 = Some ''Ana'' \<and> ''Ana'' \<noteq> [] \<and> Map_has ?cm ''Ana''"
    by (simp add: Map_has_def)
  have "workItemStep ?cm ?w1 = ?cm" using workItemStep_effect[of ?w1 ?cm] h1 by blast
  moreover have "workItemStep ?cm ?w2 = ?cm" using workItemStep_effect[of ?w2 ?cm] h2 by blast
  moreover have "workItemStep ?cm ?w3 =
      Map_modify ''Ana'' (\<lambda>k. k\<lparr> bugsFixed := bugsFixed k + (if isDoneBug ?w3 then 1 else 0),
                            storyPointsDone := storyPointsDone k + or0 (storyPoints ?w3) \<rparr>) ?cm"
    using workItemStep_effect[of ?w3 ?cm] h3 by blast
  ultimately show ?thesis
    by (simp add: isDoneBug_def or0_def newContributor_def)
qed

text \<open>
  Without the condition on the name the statement fails: the key \<open>''''\<close> is in the
  map, the \<open>Done\<close> \<open>Bug\<close> with 3 story points is assigned to it, and neither counter
  moves.
\<close>

theorem workItemStep_empty_name_counterexample:
  "Map_has [('''', newContributor '''')] ''''
   \<and> map_option bugsFixed (Map_get (workItemStep [('''', newContributor '''')]
        \<lparr> wi_id = 1, workItemType = ''Bug'', wi_state = ''Done'', assignedTo = Some '''',
          storyPoints = Some 3, areaPath = None \<rparr>) '''') = Some 0
   \<and> map_option storyPointsDone (Map_get (workItemStep [('''', newContributor '''')]
        \<lparr> wi_id = 1, workItemType = ''Bug'', wi_state = ''Done'', assignedTo = Some '''',
          storyPoints = Some 3, areaPath = None \<rparr>) '''') = Some 0"
  by (simp add: workItemStep_def Map_has_def Map_get_def newContributor_def)

subsection \<open>The contributor list of the summary\<close>

lemma calculateTop5_keeps_argument: "snd (calculateTop5 xs cs st) = xs"
  by (simp add: calculateTop5_def Let_def)

lemma summary_contributors_top10:
  "contributors (fetchAzureDevOpsData tz cs prs wis pc cc mt df dt)
     = take 10 (js_sort byCommitsDesc (Map_values
         (contributorMapOf tz cs prs wis mt (streaksByAuthor (calculateStreaks cs)))))"
  by (simp add: fetchAzureDevOpsData_def Let_def split_def calculateTop5_keeps_argument
      aggregateContributorStats_def slice0_def)

lemma summary_contributors_descending:
  "commitsDescending (contributors (fetchAzureDevOpsData tz cs prs wis pc cc mt df dt))"
  by (simp only: summary_contributors_top10 commitsDescending_take commitsDescending_js_sort)

text \<open>
  C7 in \<^verbatim>\<open>unnamed/part_001\<close>. One commit by \<open>A\<close> and one pull request opened by
  \<open>B\<close>: \<^verbatim>\<open>aggregateContributorStats\<close> returns \<open>A\<close> (1 commit) before \<open>B\<close> (0 commits),
  and after \<^verbatim>\<open>calculateTop5\<close> has sorted that array in place the summary holds \<open>B\<close>
  before \<open>A\<close>, which is not descending by commit count.
\<close>

theorem part001_summary_contributors_reordered:
  "map name (aggregateContributorStats_part001
      [\<lparr> commitId = ''c1'', author_name = ''A'',
         author_date = \<lparr> datePart = (2024, 3, 15), msOfDay = 0 \<rparr>, comment = ''x'' \<rparr>]
      [\<lparr> pullRequestId = 1, status = ''active'', createdBy = ''B'', reviewers = None \<rparr>] [])
     = [''A'', ''B'']
   \<and> map name (contributors (fetchAzureDevOpsData_part001
      [\<lparr> commitId = ''c1'', author_name = ''A'',
         author_date = \<lparr> datePart = (2024, 3, 15), msOfDay = 0 \<rparr>, comment = ''x'' \<rparr>]
      [\<lparr> pullRequestId = 1, status = ''active'', createdBy = ''B'', reviewers = None \<rparr>] []
      0 None None)) = [''B'', ''A'']
   \<and> map commits (contributors (fetchAzureDevOpsData_part001
      [\<lparr> commitId = ''c1'', author_name = ''A'',
         author_date = \<lparr> datePart = (2024, 3, 15), msOfDay = 0 \<rparr>, comment = ''x'' \<rparr>]
      [\<lparr> pullRequestId = 1, status = ''active'', createdBy = ''B'', reviewers = None \<rparr>] []
      0 None None)) = [0, 1]"
proof -
  let ?cs = "[\<lparr> commitId = ''c1'', author_name = ''A'',
         author_date = \<lparr> datePart = (2024, 3, 15), msOfDay = 0 \<rparr>, comment = ''x'' \<rparr>]"
  let ?prs = "[\<lparr> pullRequestId = 1, status = ''active'', createdBy = ''B'', reviewers = None \<rparr>]"
  have agg: "aggregateContributorStats_part001 ?cs ?prs [] =
      [(newContributor_part001 ''A'')\<lparr>commits := 1\<rparr>,
       (newContributor_part001 ''B'')\<lparr>pullRequestsOpened := 1\<rparr>]"
    by (simp add: aggregateContributorStats_part001_def contributorMapOf_part001_def
        commitStep_part001_def prStep_part001_def ensureContributor_part001_def
        reviewersOrEmpty_def Map_has_def Map_values_def js_sort_def slice0_def
        byCommitsDesc_def newContributor_part001_def)
  have top: "snd (calculateTop5_part001
      [(newContributor_part001 ''A'')\<lparr>commits := 1\<rparr>,
       (newContributor_part001 ''B'')\<lparr>pullRequestsOpened := 1\<rparr>] ?cs) =
      [(newContributor_part001 ''B'')\<lparr>pullRequestsOpened := 1\<rparr>,
       (newContributor_part001 ''A'')\<lparr>commits := 1\<rparr>]"
    by (simp add: calculateTop5_part001_def Let_def js_sort_def byCommitsDesc_def
        byPRsOpenedDesc_def byPRsReviewedDesc_def byCommentsDesc_def newContributor_part001_def)
  have "contributors (fetchAzureDevOpsData_part001 ?cs ?prs [] 0 None None) =
      [(newContributor_part001 ''B'')\<lparr>pullRequestsOpened := 1\<rparr>,
       (newContributor_part001 ''A'')\<lparr>commits := 1\<rparr>]"
    by (simp only: fetchAzureDevOpsData_part001_def Let_def split_def agg top summary.simps)
  then have "map name (contributors (fetchAzureDevOpsData_part001 ?cs ?prs [] 0 None None)) = [''B'', ''A'']
      \<and> map commits (contributors (fetchAzureDevOpsData_part001 ?cs ?prs [] 0 None None)) = [0, 1]"
    by (simp add: newContributor_part001_def)
  moreover have "map name (aggregateContributorStats_part001 ?cs ?prs []) = [''A'', ''B'']"
    by (simp only: agg) (simp add: newContributor_part001_def)
  ultimately show ?thesis by blast
qed

subsection \<open>Highlights\<close>

lemma length_slice0: "length (slice0 n xs) \<le> n"
  by (simp add: slice0_def)

text \<open>
  C5, as the code has it. The list that \<^verbatim>\<open>generateHighlights\<close> returns has at most 10
  entries in \<^verbatim>\<open>azure-devops.ts\<close> (\<^verbatim>\<open>slice(0, 10)\<close>), at most 8 in \<^verbatim>\<open>part_001\<close> and
  at most 6 in \<^verbatim>\<open>part_009\<close>.
\<close>

theorem highlights_caps:
  "length (generateHighlights cs prs wis prComments cc ap) \<le> 10
   \<and> length (generateHighlights_part001 cs prs wis prComments) \<le> 8
   \<and> length (generateHighlights_part009 cs prs wis) \<le> 6"
  unfolding generateHighlights_def generateHighlights_part001_def generateHighlights_part009_def
    Let_def
  by (intro conjI length_slice0)

lemmas date_defs = dayNumber_def days_before_year_def days_before_month_def is_leap_def
  dateTime_def msPerDay_def getTime_def getHours_def getDay_def

lemmas highlight_defs = pushIf_def mergedPRs_def countType_def getOr_def bugsFixedCount_def
  totalStoryPoints_def uniqueContributors_def isDoneBug_def Set_add_def Map_get_def
  nat_or0_def or0_def slice0_def

text \<open>
  \<^verbatim>\<open>azure-devops.ts\<close> returns ten highlights, more than 8, when every candidate
  fires: one commit, one pull request, one review comment, one line added, and
  a fixed bug, a feature, a test case and a requirement with a story point.
\<close>

theorem highlights_enhanced_counterexample:
  "length (generateHighlights
      [\<lparr> commitId = ''c1'', author_name = ''A'',
         author_date = \<lparr> datePart = (2024, 3, 15), msOfDay = 36000000 \<rparr>, comment = ''x'' \<rparr>]
      [\<lparr> pullRequestId = 1, status = ''completed'', createdBy = ''A'', reviewers = None \<rparr>]
      [\<lparr> wi_id = 1, workItemType = ''Bug'', wi_state = ''Done'', assignedTo = None,
         storyPoints = Some 1, areaPath = None \<rparr>,
       \<lparr> wi_id = 2, workItemType = ''Feature'', wi_state = ''New'', assignedTo = None,
         storyPoints = None, areaPath = None \<rparr>,
       \<lparr> wi_id = 3, workItemType = ''Test Case'', wi_state = ''New'', assignedTo = None,
         storyPoints = None, areaPath = None \<rparr>,
       \<lparr> wi_id = 4, workItemType = ''Requirement'', wi_state = ''New'', assignedTo = None,
         storyPoints = None, areaPath = None \<rparr>]
      1 \<lparr> cc_linesAdded = 1, cc_linesDeleted = 0, filesChanged = 1 \<rparr>
      (calculateActivityPattern 0
        [\<lparr> commitId = ''c1'', author_name = ''A'',
           author_date = \<lparr> datePart = (2024, 3, 15), msOfDay = 36000000 \<rparr>, comment = ''x'' \<rparr>]))
     = 10"
  by (simp add: generateHighlights_def Let_def highlight_defs calculateActivityPattern_def
      peakOf_def)

subsection \<open>Sprints\<close>

lemma sprintsCompleted_div:
  "sprintsCompleted (Some f) (Some t) = (dayNumber t - dayNumber f) div 14"
proof -
  have "sprintsCompleted (Some f) (Some t)
      = (dateTime t - dateTime f) div (14 * 24 * 60 * 60 * 1000)"
    unfolding sprintsCompleted_def
    by (simp only: prod.case option.case floor_divide_of_int_eq)
  also have "dateTime t - dateTime f = (dayNumber t - dayNumber f) * 86400000"
    by (simp add: dateTime_def msPerDay_def algebra_simps)
  finally show ?thesis by simp
qed

text \<open>
  C8. \<open>sprintsCompleted\<close> in the summary is the number of days between the two bounds
  divided by 14 and rounded down, 0 when no bound is given, and 2 for bounds 28 days
  apart.
\<close>

theorem sprintsCompleted_whole_fortnights:
  "stats_sprintsCompleted (fetchAzureDevOpsData tz cs prs wis pc cc mt (Some f) (Some t))
     = (dayNumber t - dayNumber f) div 14
   \<and> stats_sprintsCompleted (fetchAzureDevOpsData tz cs prs wis pc cc mt None None) = 0
   \<and> (dayNumber t - dayNumber f = 28 \<longrightarrow>
        stats_sprintsCompleted (fetchAzureDevOpsData tz cs prs wis pc cc mt (Some f) (Some t)) = 2)"
proof -
  have s: "stats_sprintsCompleted (fetchAzureDevOpsData tz cs prs wis pc cc mt df dt)
      = sprintsCompleted df dt" for df dt
    by (simp add: fetchAzureDevOpsData_def Let_def split_def)
  show ?thesis
    by (simp add: s sprintsCompleted_div) (simp add: sprintsCompleted_def)
qed

theorem sprintsCompleted_whole_fortnights_witness:
  "dayNumber (2024, 1, 29) - dayNumber (2024, 1, 1) = 28
   \<and> stats_sprintsCompleted (fetchAzureDevOpsData 0 [] [] [] 0
        \<lparr> cc_linesAdded = 0, cc_linesDeleted = 0, filesChanged = 0 \<rparr> []
        (Some (2024, 1, 1)) (Some (2024, 1, 29))) = 2"
proof -
  have d: "dayNumber (2024, 1, 29) - dayNumber (2024, 1, 1) = 28"
    by (simp add: date_defs)
  with sprintsCompleted_whole_fortnights[of 0 "[]" "[]" "[]" 0
      "\<lparr> cc_linesAdded = 0, cc_linesDeleted = 0, filesChanged = 0 \<rparr>" "[]" "(2024, 1, 1)" "(2024, 1, 29)"]
  show ?thesis by blast
qed

subsection \<open>No commits\<close>

lemma pattern_of_no_commits:
  "calculateActivityPattern tz [] =
     \<lparr> hourlyDistribution = replicate 24 0, dailyDistribution = replicate 7 0, busiestHour = 0,
       busiestDay = Some ''Sunday'', peakProductivityTime = ''Night'' \<rparr>"
proof -
  have h: "indexOfMax (replicate 24 0) = 0"
    by (simp add: indexOfMax_def eval_nat_numeral)
  have d: "indexOfMax (replicate 7 0) = 0"
    by (simp add: indexOfMax_def eval_nat_numeral)
  show ?thesis
    by (simp add: calculateActivityPattern_def h d peakOf_def arrayAt_def dayNames_def)
qed

lemma zero_to_string: "intToString 0 = ''0''"
  by (simp add: intToString_def natToString.simps digitChar_def)

text \<open>
  C10. For the empty commit list the pattern has busiest hour 0, busiest day Sunday and
  peak time Night, and \<^verbatim>\<open>generateHighlights\<close> of \<^verbatim>\<open>azure-devops.ts\<close> still emits the
  peak-productivity highlight, whatever the other inputs are.
\<close>

theorem no_commits_pattern_and_highlight:
  "busiestHour (calculateActivityPattern tz []) = 0
   \<and> busiestDay (calculateActivityPattern tz []) = Some ''Sunday''
   \<and> peakProductivityTime (calculateActivityPattern tz []) = ''Night''
   \<and> ''Peak productivity: Night (0:00)''
       \<in> set (generateHighlights [] prs wis prComments cc (calculateActivityPattern tz []))"
proof -
  let ?ap = "calculateActivityPattern tz []"
  let ?byType = "foldl countType [] wis"
  define h2 where "h2 = pushIf (length prs > 0) (natToString (mergedPRs prs) @ '' pull requests merged'') []"
  define h3 where "h3 = pushIf (prComments > 0) (toLocaleString prComments @ '' code review comments'') h2"
  define h4 where "h4 = pushIf (cc_linesAdded cc > 0 \<or> cc_linesDeleted cc > 0)
                 (toLocaleString (filesChanged cc) @ '' files modified'') h3"
  define h5 where "h5 = (if bugsFixedCount wis > 0
                then h4 @ [natToString (bugsFixedCount wis) @ '' bugs squashed out of '' @
                           natToString (nat_or0 (Map_get ?byType ''Bug'')) @ '' total'']
                else if nat_or0 (Map_get ?byType ''Bug'') > 0
                then h4 @ [natToString (nat_or0 (Map_get ?byType ''Bug'')) @ '' bugs tracked'']
                else h4)"
  define h6 where "h6 = pushIf (getOr ?byType ''Feature'' ''User Story'' > 0)
      (natToString (getOr ?byType ''Feature'' ''User Story'') @ '' features delivered'') h5"
  define h7 where "h7 = pushIf (getOr ?byType ''Test Case'' ''Test Plan'' > 0)
      (natToString (getOr ?byType ''Test Case'' ''Test Plan'') @ '' test cases created'') h6"
  define h8 where "h8 = pushIf (getOr ?byType ''Requirement'' ''SRD'' > 0)
      (natToString (getOr ?byType ''Requirement'' ''SRD'') @ '' requirements documented'') h7"
  define h9 where "h9 = pushIf (totalStoryPoints wis > 0)
      (intToString (totalStoryPoints wis) @ '' story points delivered'') h8"
  have gen: "generateHighlights [] prs wis prComments cc ?ap
      = slice0 10 (h9 @ [''Peak productivity: Night (0:00)''])"
    unfolding generateHighlights_def Let_def pattern_of_no_commits
    by (simp add: h2_def h3_def h4_def h5_def h6_def h7_def h8_def h9_def
        uniqueContributors_def pushIf_def zero_to_string)
  have "length h2 \<le> 1" by (simp add: h2_def pushIf_def)
  then have "length h3 \<le> 2" by (simp add: h3_def pushIf_def)
  then have "length h4 \<le> 3" by (simp add: h4_def pushIf_def)
  then have "length h5 \<le> 4" by (simp add: h5_def)
  then have "length h6 \<le> 5" by (simp add: h6_def pushIf_def)
  then have "length h7 \<le> 6" by (simp add: h7_def pushIf_def)
  then have "length h8 \<le> 7" by (simp add: h8_def pushIf_def)
  then have "length h9 \<le> 8" by (simp add: h9_def pushIf_def)
  then have "generateHighlights [] prs wis prComments cc ?ap
      = h9 @ [''Peak productivity: Night (0:00)'']"
    by (simp add: gen slice0_def)
  then have "''Peak productivity: Night (0:00)''
       \<in> set (generateHighlights [] prs wis prComments cc ?ap)"
    by simp
  then show ?thesis by (simp add: pattern_of_no_commits)
qed

subsection \<open>Milestones\<close>

lemma sort_key_three:
  fixes f :: "'a \<Rightarrow> int"
  assumes m: "mset cs = {#c1, c2, c3#}" and o: "f c1 < f c2" "f c2 < f c3"
  shows "sort_key f cs = [c1, c2, c3]"
proof (rule properties_for_sort_key)
  show "mset [c1, c2, c3] = mset cs" using m by simp
  show "sorted (map f [c1, c2, c3])" using o by simp
  fix k assume k: "k \<in> set [c1, c2, c3]"
  have "mset (filter (\<lambda>x. f k = f x) cs) = filter_mset (\<lambda>x. f k = f x) {#c1, c2, c3#}"
    using m by (metis mset_filter)
  also have "\<dots> = {#k#}" using k o by auto
  finally have "mset (filter (\<lambda>x. f k = f x) cs) = mset [k]" by simp
  then have "filter (\<lambda>x. f k = f x) cs = [k]"
    by (metis mset_single_iff_right mset.simps(2) mset_zero_iff)
  moreover have "filter (\<lambda>x. f k = f x) [c1, c2, c3] = [k]" using k o by auto
  ultimately show "filter (\<lambda>x. f k = f x) [c1, c2, c3] = filter (\<lambda>x. f k = f x) cs" by simp
qed

lemma milestones_sorted: "sorted (map (\<lambda>m. dateTime (date m)) (generateMilestones cs prs wis df dt))"
  by (simp add: generateMilestones_def Let_def js_sort_byMilestoneDate)

text \<open>
  C6. The list that \<^verbatim>\<open>generateMilestones\<close> returns is ascending by date. For the range
  2024-01-01 to 2024-12-31, three commits (in any order) dated 2024-02-01, 2024-06-01 and
  2024-11-01 and fewer than 100 pull requests, it is Period Start (2024-01-01), First
  Commit, Halfway Point, Period End (2024-12-31), strictly ascending by date.
\<close>

theorem milestones_ascending:
  "sorted (map (\<lambda>m. dateTime (date m)) (generateMilestones cs prs wis dateFrom dateTo))
   \<and> (mset cs = {#c1, c2, c3#}
        \<and> datePart (author_date c1) = (2024, 2, 1) \<and> msOfDay (author_date c1) < 86400000
        \<and> datePart (author_date c2) = (2024, 6, 1) \<and> msOfDay (author_date c2) < 86400000
        \<and> datePart (author_date c3) = (2024, 11, 1) \<and> msOfDay (author_date c3) < 86400000
        \<and> length prs < 100 \<longrightarrow>
      map title (generateMilestones cs prs wis (Some (2024, 1, 1)) (Some (2024, 12, 31)))
        = [''Period Start'', ''First Commit'', ''Halfway Point'', ''Period End'']
      \<and> map date (generateMilestones cs prs wis (Some (2024, 1, 1)) (Some (2024, 12, 31)))
        = [(2024, 1, 1), (2024, 2, 1), (2024, 6, 1), (2024, 12, 31)]
      \<and> sorted_wrt (<) (map (\<lambda>m. dateTime (date m))
          (generateMilestones cs prs wis (Some (2024, 1, 1)) (Some (2024, 12, 31)))))"
proof (intro conjI impI)
  show "sorted (map (\<lambda>m. dateTime (date m)) (generateMilestones cs prs wis dateFrom dateTo))"
    by (rule milestones_sorted)
next
  assume a: "mset cs = {#c1, c2, c3#}
        \<and> datePart (author_date c1) = (2024, 2, 1) \<and> msOfDay (author_date c1) < 86400000
        \<and> datePart (author_date c2) = (2024, 6, 1) \<and> msOfDay (author_date c2) < 86400000
        \<and> datePart (author_date c3) = (2024, 11, 1) \<and> msOfDay (author_date c3) < 86400000
        \<and> length prs < 100"
  have t: "getTime (author_date c1) < getTime (author_date c2)"
      "getTime (author_date c2) < getTime (author_date c3)"
    using a by (simp_all add: date_defs)
  have srt: "js_sort byCommitTime cs = [c1, c2, c3]"
    using a t by (simp add: js_sort_byCommitTime sort_key_three)
  have len: "length cs = 3"
    using a by (metis size_mset size_add_mset size_empty numeral_3_eq_3)
  have cm: "commitMilestones cs =
      [\<lparr> date = (2024, 2, 1), title = ''First Commit'',
          description = firstCommitDescription c1, icon = ''lightbulb'' \<rparr>,
       \<lparr> date = (2024, 6, 1), title = ''Halfway Point'',
          description = natToString 1 @ '' commits so far'', icon = ''flag'' \<rparr>]"
    using a by (simp add: commitMilestones_def srt Let_def)
  have d: "dateTime (2024, 1, 1) < dateTime (2024, 2, 1)" "dateTime (2024, 2, 1) < dateTime (2024, 6, 1)"
      "dateTime (2024, 6, 1) < dateTime (2024, 12, 31)"
    by (simp_all add: date_defs)
  have ms: "generateMilestones cs prs wis (Some (2024, 1, 1)) (Some (2024, 12, 31)) =
      [\<lparr> date = (2024, 1, 1), title = ''Period Start'',
          description = ''Beginning of the tracking period'', icon = ''rocket'' \<rparr>,
       \<lparr> date = (2024, 2, 1), title = ''First Commit'',
          description = firstCommitDescription c1, icon = ''lightbulb'' \<rparr>,
       \<lparr> date = (2024, 6, 1), title = ''Halfway Point'',
          description = natToString 1 @ '' commits so far'', icon = ''flag'' \<rparr>,
       \<lparr> date = (2024, 12, 31), title = ''Period End'',
          description = ''End of tracking period'', icon = ''lock'' \<rparr>]"
    using a d by (simp add: generateMilestones_def Let_def len cm js_sort_def byMilestoneDate_def)
  show "map title (generateMilestones cs prs wis (Some (2024, 1, 1)) (Some (2024, 12, 31)))
        = [''Period Start'', ''First Commit'', ''Halfway Point'', ''Period End'']"
    by (simp only: ms) simp
  show "map date (generateMilestones cs prs wis (Some (2024, 1, 1)) (Some (2024, 12, 31)))
        = [(2024, 1, 1), (2024, 2, 1), (2024, 6, 1), (2024, 12, 31)]"
    by (simp only: ms) simp
  show "sorted_wrt (<) (map (\<lambda>m. dateTime (date m))
          (generateMilestones cs prs wis (Some (2024, 1, 1)) (Some (2024, 12, 31))))"
    using d by (simp only: ms) simp
qed

theorem milestones_ascending_witness:
  "map title (generateMilestones
      [\<lparr> commitId = ''c3'', author_name = ''A'',
         author_date = \<lparr> datePart = (2024, 11, 1), msOfDay = 3600000 \<rparr>, comment = ''third'' \<rparr>,
       \<lparr> commitId = ''c1'', author_name = ''A'',
         author_date = \<lparr> datePart = (2024, 2, 1), msOfDay = 36000000 \<rparr>, comment = ''first'' \<rparr>,
       \<lparr> commitId = ''c2'', author_name = ''B'',
         author_date = \<lparr> datePart = (2024, 6, 1), msOfDay = 0 \<rparr>, comment = ''second'' \<rparr>]
      [] [] (Some (2024, 1, 1)) (Some (2024, 12, 31)))
     = [''Period Start'', ''First Commit'', ''Halfway Point'', ''Period End'']
   \<and> map date (generateMilestones
      [\<lparr> commitId = ''c3'', author_name = ''A'',
         author_date = \<lparr> datePart = (2024, 11, 1), msOfDay = 3600000 \<rparr>, comment = ''third'' \<rparr>,
       \<lparr> commitId = ''c1'', author_name = ''A'',
         author_date = \<lparr> datePart = (2024, 2, 1), msOfDay = 36000000 \<rparr>, comment = ''first'' \<rparr>,
       \<lparr> commitId = ''c2'', author_name = ''B'',
         author_date = \<lparr> datePart = (2024, 6, 1), msOfDay = 0 \<rparr>, comment = ''second'' \<rparr>]
      [] [] (Some (2024, 1, 1)) (Some (2024, 12, 31)))
     = [(2024, 1, 1), (2024, 2, 1), (2024, 6, 1), (2024, 12, 31)]"
proof -
  let ?c1 = "\<lparr> commitId = ''c1'', author_name = ''A'',
         author_date = \<lparr> datePart = (2024, 2, 1), msOfDay = 36000000 \<rparr>, comment = ''first'' \<rparr>"
  let ?c2 = "\<lparr> commitId = ''c2'', author_name = ''B'',
         author_date = \<lparr> datePart = (2024, 6, 1), msOfDay = 0 \<rparr>, comment = ''second'' \<rparr>"
  let ?c3 = "\<lparr> commitId = ''c3'', author_name = ''A'',
         author_date = \<lparr> datePart = (2024, 11, 1), msOfDay = 3600000 \<rparr>, comment = ''third'' \<rparr>"
  have h: "mset [?c3, ?c1, ?c2] = {#?c1, ?c2, ?c3#}
        \<and> datePart (author_date ?c1) = (2024, 2, 1) \<and> msOfDay (author_date ?c1) < 86400000
        \<and> datePart (author_date ?c2) = (2024, 6, 1) \<and> msOfDay (author_date ?c2) < 86400000
        \<and> datePart (author_date ?c3) = (2024, 11, 1) \<and> msOfDay (author_date ?c3) < 86400000
        \<and> length ([] :: pullRequest list) < 100"
    by simp
  show ?thesis
    using milestones_ascending[of "[?c3, ?c1, ?c2]" "[]" "[]" None None ?c1 ?c2 ?c3] h
    by blast
qed

subsection \<open>Calendar dates\<close>

lemma div_step:
  assumes "0 < (n::int)"
  shows "(p + 1) div n = p div n + (if (p + 1) mod n = 0 then 1 else 0)"
proof (cases "(p + 1) mod n = 0")
  case True
  then obtain k where k: "p + 1 = n * k" by auto
  then have "p = n * (k - 1) + (n - 1)" by (simp add: algebra_simps)
  then have "p div n = k - 1" using assms by simp
  moreover have "(p + 1) div n = k" using k assms by simp
  ultimately show ?thesis using True by simp
next
  case False
  have "p mod n + 1 \<noteq> n"
  proof
    assume "p mod n + 1 = n"
    then have "(p mod n + 1) mod n = 0" by simp
    then have "(p + 1) mod n = 0" by (simp add: mod_add_left_eq)
    with False show False by simp
  qed
  moreover have "0 \<le> p mod n" "p mod n < n" using assms by simp_all
  ultimately have r: "0 \<le> p mod n + 1" "p mod n + 1 < n" by linarith+
  have "p + 1 = n * (p div n) + (p mod n + 1)" by simp
  then have "(p + 1) div n = p div n" using r by (rule int_div_pos_eq)
  then show ?thesis using False by simp
qed

lemma days_before_year_Suc:
  "days_before_year (Suc y) = days_before_year y + (if is_leap y then 366 else 365)"
proof -
  have m: "int y mod int k = 0 \<longleftrightarrow> y mod k = 0" for k
    by (metis of_nat_mod of_nat_eq_0_iff)
  have e4: "int y div 4 = (int y - 1) div 4 + (if y mod 4 = 0 then 1 else 0)"
    using div_step[of 4 "int y - 1"] m[of 4] by simp
  have e100: "int y div 100 = (int y - 1) div 100 + (if y mod 100 = 0 then 1 else 0)"
    using div_step[of 100 "int y - 1"] m[of 100] by simp
  have e400: "int y div 400 = (int y - 1) div 400 + (if y mod 400 = 0 then 1 else 0)"
    using div_step[of 400 "int y - 1"] m[of 400] by simp
  have d1: "y mod 100 = 0" if "y mod 400 = 0"
  proof -
    have "(100::nat) dvd 400" by simp
    moreover have "400 dvd y" using that by (simp add: mod_eq_0_iff_dvd)
    ultimately have "100 dvd y" by (rule dvd_trans)
    then show ?thesis by (simp add: mod_eq_0_iff_dvd)
  qed
  have d2: "y mod 4 = 0" if "y mod 100 = 0"
  proof -
    have "(4::nat) dvd 100" by simp
    moreover have "100 dvd y" using that by (simp add: mod_eq_0_iff_dvd)
    ultimately have "4 dvd y" by (rule dvd_trans)
    then show ?thesis by (simp add: mod_eq_0_iff_dvd)
  qed
  have "days_before_year (Suc y) = 365 * int y + int y div 4 - int y div 100 + int y div 400"
    by (simp add: days_before_year_def Let_def)
  also have "\<dots> = days_before_year y + 365 + (if y mod 4 = 0 then 1 else 0)
      - (if y mod 100 = 0 then 1 else 0) + (if y mod 400 = 0 then 1 else 0)"
    unfolding days_before_year_def Let_def by (simp only: e4 e100 e400) (simp add: algebra_simps)
  also have "\<dots> = days_before_year y + (if is_leap y then 366 else 365)"
  proof (cases "y mod 4 = 0")
    case False
    then have "y mod 100 \<noteq> 0" using d2 by auto
    moreover from this have "y mod 400 \<noteq> 0" using d1 by auto
    ultimately have "y mod 100 \<noteq> 0" "y mod 400 \<noteq> 0" by simp_all
    with False show ?thesis by (simp add: is_leap_def)
  next
    case True
    show ?thesis
    proof (cases "y mod 100 = 0")
      case False
      then have "y mod 400 \<noteq> 0" using d1 by auto
      with True False show ?thesis by (simp add: is_leap_def)
    next
      case h: True
      show ?thesis using True h by (cases "y mod 400 = 0") (simp_all add: is_leap_def)
    qed
  qed
  finally show ?thesis .
qed

lemma days_before_year_mono: "y \<le> y' \<Longrightarrow> days_before_year y \<le> days_before_year y'"
proof (induction y' rule: nat_induct_at_least)
  case base
  show ?case by simp
next
  case (Suc n)
  then show ?case by (simp add: days_before_year_Suc)
qed

lemma days_before_month_Suc:
  assumes "1 \<le> m" "m < 12"
  shows "days_before_month y (Suc m) = days_before_month y m + int (days_in_month y m)"
proof -
  have "m = 1 \<or> m = 2 \<or> m = 3 \<or> m = 4 \<or> m = 5 \<or> m = 6 \<or> m = 7 \<or> m = 8 \<or> m = 9
    \<or> m = 10 \<or> m = 11" using assms by arith
  then show ?thesis
    by (elim disjE) (simp_all add: days_before_month_def days_in_month_def)
qed

lemma days_before_month_mono:
  assumes "m \<le> m'" "1 \<le> m" "m' \<le> 12"
  shows "days_before_month y m \<le> days_before_month y m'"
  using assms
proof (induction m' rule: nat_induct_at_least)
  case base
  show ?case by simp
next
  case (Suc n)
  then have "days_before_month y (Suc n) = days_before_month y n + int (days_in_month y n)"
    by (intro days_before_month_Suc) simp_all
  with Suc show ?case by simp
qed

lemma month_fits_before_next:
  assumes "1 \<le> m" "m < m'" "m' \<le> 12"
  shows "days_before_month y m + int (days_in_month y m) \<le> days_before_month y m'"
proof -
  have "days_before_month y (Suc m) = days_before_month y m + int (days_in_month y m)"
    using assms by (intro days_before_month_Suc) simp_all
  moreover have "days_before_month y (Suc m) \<le> days_before_month y m'"
    using assms by (intro days_before_month_mono) simp_all
  ultimately show ?thesis by simp
qed

lemma month_fits_in_year:
  assumes "1 \<le> m" "m \<le> 12"
  shows "days_before_month y m + int (days_in_month y m) \<le> (if is_leap y then 366 else 365)"
proof (cases "m = 12")
  case True
  then show ?thesis by (simp add: days_before_month_def days_in_month_def)
next
  case False
  then have "days_before_month y m + int (days_in_month y m) \<le> days_before_month y 12"
    using assms by (intro month_fits_before_next) simp_all
  also have "\<dots> \<le> (if is_leap y then 366 else 365)"
    by (simp add: days_before_month_def)
  finally show ?thesis .
qed

lemma days_before_month_nonneg: "1 \<le> m \<Longrightarrow> m \<le> 12 \<Longrightarrow> 0 \<le> days_before_month y m"
  using days_before_month_mono[of 1 m y] by (simp add: days_before_month_def)

lemma dayNumber_strict_mono:
  assumes "valid_date a" "valid_date b" "a < b"
  shows "dayNumber a < dayNumber b"
proof -
  obtain y m d where a: "a = (y, m, d)" by (cases a)
  obtain y' m' d' where b: "b = (y', m', d')" by (cases b)
  have va: "1 \<le> m" "m \<le> 12" "1 \<le> d" "d \<le> days_in_month y m"
    using assms(1) by (simp_all add: valid_date_def a)
  have vb: "1 \<le> m'" "m' \<le> 12" "1 \<le> d'" "d' \<le> days_in_month y' m'"
    using assms(2) by (simp_all add: valid_date_def b)
  from assms(3) have "y < y' \<or> (y = y' \<and> m < m') \<or> (y = y' \<and> m = m' \<and> d < d')"
    unfolding a b by simp arith
  then consider "y < y'" | "y = y'" "m < m'" | "y = y'" "m = m'" "d < d'"
    by blast
  then show ?thesis
  proof cases
    case 1
    have "days_before_month y m + int d \<le> (if is_leap y then 366 else 365)"
      using month_fits_in_year[OF va(1,2), of y] va(4) by linarith
    then have "days_before_year y + days_before_month y m + int d \<le> days_before_year (Suc y)"
      by (simp add: days_before_year_Suc)
    also have "\<dots> \<le> days_before_year y'"
      using 1 by (intro days_before_year_mono) simp
    also have "\<dots> < days_before_year y' + days_before_month y' m' + int d'"
      using days_before_month_nonneg[OF vb(1,2), of y'] vb(3) by linarith
    finally show ?thesis by (simp add: dayNumber_def a b)
  next
    case 2
    have "days_before_month y m + int d \<le> days_before_month y m'"
      using month_fits_before_next[OF va(1) 2(2) vb(2), of y] va(4) by linarith
    then show ?thesis using 2 vb(3) by (simp add: dayNumber_def a b)
  next
    case 3
    then show ?thesis by (simp add: dayNumber_def a b)
  qed
qed

lemma dayNumber_inj:
  assumes "valid_date a" "valid_date b" "dayNumber a = dayNumber b"
  shows "a = b"
proof (rule ccontr)
  assume "a \<noteq> b"
  then consider "a < b" | "b < a" by (metis linorder_neqE)
  then show False
    using dayNumber_strict_mono[OF assms(1,2)] dayNumber_strict_mono[OF assms(2,1)] assms(3)
    by cases simp_all
qed

subsection \<open>Runs of consecutive days\<close>

lemma diffDays_one: "diffDays p c = 1 \<longleftrightarrow> dayNumber c - dayNumber p = 1"
proof -
  have "dateTime c - dateTime p = (dayNumber c - dayNumber p) * msPerDay"
    by (simp add: dateTime_def algebra_simps)
  then have "diffDays p c = of_int (dayNumber c - dayNumber p)"
    by (simp add: diffDays_def msPerDay_def)
  moreover have "(of_int (dayNumber c - dayNumber p) = (1::rat)) \<longleftrightarrow> dayNumber c - dayNumber p = 1"
    by (metis of_int_eq_1_iff)
  ultimately show ?thesis by (simp only:)
qed

lemma run_with_new_maximum:
  assumes top: "\<forall>x\<in>P. x < e" and run: "\<forall>i<k. a + int i \<in> insert e P"
  shows "(\<forall>i<k. a + int i \<in> P) \<or> (1 \<le> k \<and> a + int k - 1 = e)"
proof (cases "\<exists>i<k. a + int i = e")
  case False
  with run show ?thesis by auto
next
  case True
  then obtain i where i: "i < k" "a + int i = e" by blast
  have "i = k - 1"
  proof (rule ccontr)
    assume "i \<noteq> k - 1"
    with i have "Suc i < k" by arith
    with run have "a + int (Suc i) \<in> insert e P" by blast
    with i(2) have "e + 1 \<in> insert e P" by (simp add: algebra_simps)
    with top show False by auto
  qed
  with i show ?thesis by (auto simp: of_nat_diff)
qed

lemma longest_run_at_least_one: "longest_run P mx \<Longrightarrow> d \<in> P \<Longrightarrow> 1 \<le> mx"
proof -
  assume l: "longest_run P mx" and d: "d \<in> P"
  have "\<forall>i<(1::nat). d + int i \<in> P" using d by simp
  with l show ?thesis unfolding longest_run_def by blast
qed

lemma longest_run_adjacent:
  assumes d: "d \<in> P" and top: "\<forall>x\<in>P. x \<le> d" and cur: "1 \<le> cur"
    and behind: "\<forall>i<cur. d - int i \<in> P" and stop: "d - int cur \<notin> P"
    and l: "longest_run P mx"
  shows "longest_run (insert (d + 1) P) (max mx (cur + 1))"
  unfolding longest_run_def
proof (intro conjI allI impI)
  show "\<exists>a. \<forall>i<max mx (cur + 1). a + int i \<in> insert (d + 1) P"
  proof (cases "cur + 1 \<le> mx")
    case True
    from l obtain a where "\<forall>i<mx. a + int i \<in> P" unfolding longest_run_def by blast
    with True show ?thesis by (auto simp: max_def)
  next
    case False
    have "\<forall>i<cur + 1. (d + 1 - int cur) + int i \<in> insert (d + 1) P"
    proof (intro allI impI)
      fix i assume i: "i < cur + 1"
      show "(d + 1 - int cur) + int i \<in> insert (d + 1) P"
      proof (cases "i = cur")
        case True
        then show ?thesis by simp
      next
        case False
        with i have "cur - 1 - i < cur" using cur by arith
        with behind have "d - int (cur - 1 - i) \<in> P" by blast
        moreover have "int (cur - 1 - i) = int cur - 1 - int i"
          using i False by (simp add: of_nat_diff)
        then have "d - int (cur - 1 - i) = (d + 1 - int cur) + int i"
          by linarith
        ultimately show ?thesis by (simp only: insert_iff) simp
      qed
    qed
    then have "\<exists>a. \<forall>i<cur + 1. a + int i \<in> insert (d + 1) P" by blast
    moreover have "max mx (cur + 1) = cur + 1" using False by simp
    ultimately show ?thesis by (simp only:)
  qed
next
  fix a k assume run: "\<forall>i<k. a + int i \<in> insert (d + 1) P"
  have top': "\<forall>x\<in>P. x < d + 1" using top by auto
  from run_with_new_maximum[OF top' run]
  show "k \<le> max mx (cur + 1)"
  proof
    assume "\<forall>i<k. a + int i \<in> P"
    with l have "k \<le> mx" unfolding longest_run_def by blast
    then show ?thesis by simp
  next
    assume e: "1 \<le> k \<and> a + int k - 1 = d + 1"
    have "k \<le> cur + 1"
    proof (rule ccontr)
      assume "\<not> k \<le> cur + 1"
      then have i: "k - 2 - cur < k" by arith
      with run have "a + int (k - 2 - cur) \<in> insert (d + 1) P" by blast
      moreover have "a + int (k - 2 - cur) = d - int cur"
        using e \<open>\<not> k \<le> cur + 1\<close> by (simp add: of_nat_diff algebra_simps)
      ultimately have "d - int cur \<in> insert (d + 1) P" by simp
      with stop show False by auto
    qed
    then show ?thesis by simp
  qed
qed

lemma longest_run_gap:
  assumes d: "d \<in> P" and top: "\<forall>x\<in>P. x \<le> d" and gap: "d + 1 < e"
    and l: "longest_run P mx"
  shows "longest_run (insert e P) mx"
  unfolding longest_run_def
proof (intro conjI allI impI)
  from l obtain a where "\<forall>i<mx. a + int i \<in> P" unfolding longest_run_def by blast
  then show "\<exists>a. \<forall>i<mx. a + int i \<in> insert e P" by auto
next
  fix a k assume run: "\<forall>i<k. a + int i \<in> insert e P"
  have top': "\<forall>x\<in>P. x < e" using top gap by auto
  from run_with_new_maximum[OF top' run]
  show "k \<le> mx"
  proof
    assume "\<forall>i<k. a + int i \<in> P"
    with l show ?thesis unfolding longest_run_def by blast
  next
    assume e: "1 \<le> k \<and> a + int k - 1 = e"
    have "k \<le> 1"
    proof (rule ccontr)
      assume "\<not> k \<le> 1"
      then have "k - 2 < k" by arith
      with run have "a + int (k - 2) \<in> insert e P" by blast
      moreover have "a + int (k - 2) = e - 1"
        using e \<open>\<not> k \<le> 1\<close> by (simp add: of_nat_diff algebra_simps)
      ultimately have "e - 1 \<in> P" by auto
      with top gap show False by auto
    qed
    with longest_run_at_least_one[OF l d] show ?thesis by simp
  qed
qed

lemma longest_run_single: "longest_run {d} 1"
  unfolding longest_run_def
proof (intro conjI allI impI)
  show "\<exists>a. \<forall>i<1. a + int i \<in> {d}" by (intro exI[of _ d]) simp
next
  fix a k assume run: "\<forall>i<k. a + int i \<in> {d}"
  show "k \<le> 1"
  proof (rule ccontr)
    assume "\<not> k \<le> 1"
    then have "0 < k" "1 < k" by simp_all
    with run have "a + int 0 = d" "a + int 1 = d" by blast+
    then show False by simp
  qed
qed

lemma longest_run_unique: "longest_run S n \<Longrightarrow> longest_run S n' \<Longrightarrow> n = n'"
  unfolding longest_run_def by (meson order_antisym)

lemma streakWalk_longest_run:
  assumes "sorted_wrt (<) (map dayNumber (p # rest))"
    and "dayNumber p \<in> P" and "\<forall>x\<in>P. x \<le> dayNumber p" and "1 \<le> cur"
    and "\<forall>i<cur. dayNumber p - int i \<in> P" and "dayNumber p - int cur \<notin> P"
    and "longest_run P mx"
  shows "longest_run (P \<union> dayNumber ` set rest) (streakWalk (p # rest) cur mx)"
  using assms
proof (induction rest arbitrary: p P cur mx)
  case Nil
  then show ?case by simp
next
  case (Cons c rest)
  let ?d = "dayNumber p" and ?e = "dayNumber c"
  have lt: "?d < ?e" and srt: "sorted_wrt (<) (map dayNumber (c # rest))"
    using Cons.prems(1) by simp_all
  have un: "insert ?e P \<union> dayNumber ` set rest = P \<union> dayNumber ` set (c # rest)"
    by auto
  show ?case
  proof (cases "?e - ?d = 1")
    case True
    then have e: "?e = ?d + 1" by simp
    have "longest_run (insert ?e P \<union> dayNumber ` set rest)
        (streakWalk (c # rest) (cur + 1) (max mx (cur + 1)))"
    proof (rule Cons.IH[OF srt])
      show "?e \<in> insert ?e P" by simp
      show "\<forall>x\<in>insert ?e P. x \<le> ?e" using Cons.prems(3) lt by auto
      show "1 \<le> cur + 1" by simp
      show "\<forall>i<cur + 1. ?e - int i \<in> insert ?e P"
      proof (intro allI impI)
        fix i assume "i < cur + 1"
        show "?e - int i \<in> insert ?e P"
        proof (cases i)
          case 0
          then show ?thesis by simp
        next
          case (Suc j)
          with \<open>i < cur + 1\<close> have "j < cur" by simp
          with Cons.prems(5) have "?d - int j \<in> P" by blast
          then show ?thesis using Suc e by simp
        qed
      qed
      show "?e - int (cur + 1) \<notin> insert ?e P"
        using Cons.prems(6) e by simp
      show "longest_run (insert ?e P) (max mx (cur + 1))"
        unfolding e using Cons.prems(2,3,4,5,6,7) by (rule longest_run_adjacent)
    qed
    then show ?thesis using True by (simp only: un) (simp add: diffDays_one)
  next
    case False
    with lt have gap: "?d + 1 < ?e" by simp
    have "longest_run (insert ?e P \<union> dayNumber ` set rest) (streakWalk (c # rest) 1 mx)"
    proof (rule Cons.IH[OF srt])
      show "?e \<in> insert ?e P" by simp
      show "\<forall>x\<in>insert ?e P. x \<le> ?e" using Cons.prems(3) lt by auto
      show "(1::nat) \<le> 1" by simp
      show "\<forall>i<1. ?e - int i \<in> insert ?e P" by simp
      show "?e - int 1 \<notin> insert ?e P" using Cons.prems(3) gap by auto
      show "longest_run (insert ?e P) mx"
        using Cons.prems(2,3) gap Cons.prems(7) by (rule longest_run_gap)
    qed
    then show ?thesis using False by (simp only: un) (simp add: diffDays_one)
  qed
qed

subsection \<open>Streaks\<close>

lemma authorStreak_longest_run:
  assumes ne: "ds \<noteq> []" and dist: "distinct ds" and valid: "\<forall>d\<in>set ds. valid_date d"
  shows "longest_run (dayNumber ` set ds) (authorStreak ds)"
proof -
  from ne obtain p rest where s: "sort ds = p # rest"
    by (cases "sort ds") (auto dest: arg_cong[where f = length])
  have "sorted_wrt (<) (sort ds)"
    using dist by (simp add: strict_sorted_iff)
  then have "sorted_wrt (\<lambda>a b. dayNumber a < dayNumber b) (sort ds)"
  proof (rule sorted_wrt_mono_rel[rotated])
    fix a b assume "a \<in> set (sort ds)" "b \<in> set (sort ds)" "a < b"
    then show "dayNumber a < dayNumber b"
      using valid by (intro dayNumber_strict_mono) simp_all
  qed
  then have srt: "sorted_wrt (<) (map dayNumber (p # rest))"
    by (simp only: s sorted_wrt_map)
  have "longest_run ({dayNumber p} \<union> dayNumber ` set rest) (streakWalk (p # rest) 1 1)"
  proof (rule streakWalk_longest_run[OF srt])
    show "dayNumber p \<in> {dayNumber p}" by simp
    show "\<forall>x\<in>{dayNumber p}. x \<le> dayNumber p" by simp
    show "(1::nat) \<le> 1" by simp
    show "\<forall>i<1. dayNumber p - int i \<in> {dayNumber p}" by simp
    show "dayNumber p - int 1 \<notin> {dayNumber p}" by simp
    show "longest_run {dayNumber p} 1" by (rule longest_run_single)
  qed
  moreover have "{dayNumber p} \<union> dayNumber ` set rest = dayNumber ` set ds"
  proof -
    have "set ds = set (p # rest)" using s by (metis set_sort)
    then show ?thesis by auto
  qed
  ultimately show ?thesis by (simp add: authorStreak_def s)
qed

lemma map_of_Map_set: "map_of (Map_set k v m) k' = (if k' = k then Some v else map_of m k')"
  by (induction k v m rule: Map_set.induct) auto

lemma map_of_Map_modify:
  "map_of (Map_modify k f m) k' = (if k' = k then map_option f (map_of m k) else map_of m k')"
  by (induction k f m rule: Map_modify.induct) auto

lemma Map_get_Map_set: "Map_get (Map_set k v m) k' = (if k' = k then Some v else Map_get m k')"
  by (simp add: Map_get_def map_of_Map_set)

lemma Map_get_Map_modify:
  "Map_get (Map_modify k f m) k' = (if k' = k then map_option f (Map_get m k) else Map_get m k')"
  by (simp add: Map_get_def map_of_Map_modify)

lemma distinct_keys_Map_set: "distinct (map fst m) \<Longrightarrow> distinct (map fst (Map_set k v m))"
proof (induction k v m rule: Map_set.induct)
  case (1 k v)
  then show ?case by simp
next
  case (2 k v k' v' m)
  then show ?case using keys_Map_set[of k v m] by (auto simp del: keys_Map_set)
qed

lemma Map_get_None_iff: "Map_get m k = None \<longleftrightarrow> \<not> Map_has m k"
  by (simp add: Map_get_def Map_has_def)

lemma collectDate_keys: "distinct (map fst m) \<Longrightarrow> distinct (map fst (collectDate m c))"
  by (simp add: collectDate_def Let_def keys_Map_modify distinct_keys_Map_set)

lemma collectDate_get:
  "Map_get (collectDate m c) a =
     (if a = author_name c
      then Some (Set_add (datePart (author_date c)) (case Map_get m a of None \<Rightarrow> [] | Some ds \<Rightarrow> ds))
      else Map_get m a)"
  by (auto simp: collectDate_def Let_def Map_get_Map_modify Map_get_Map_set Map_get_None_iff[symmetric]
      split: option.splits)

lemma commitsByAuthorAndDate_entries:
  "distinct (map fst (foldl collectDate [] cs))
   \<and> (\<forall>a. case Map_get (foldl collectDate [] cs) a of
          None \<Rightarrow> a \<notin> author_name ` set cs
        | Some ds \<Rightarrow> ds \<noteq> [] \<and> distinct ds
            \<and> set ds = {datePart (author_date c) | c. c \<in> set cs \<and> author_name c = a})"
proof (induction cs rule: rev_induct)
  case Nil
  show ?case by (simp add: Map_get_def)
next
  case (snoc c cs)
  let ?m = "foldl collectDate [] cs"
  have keys: "distinct (map fst (foldl collectDate [] (cs @ [c])))"
    using snoc by (simp add: collectDate_keys)
  have "case Map_get (foldl collectDate [] (cs @ [c])) a of
          None \<Rightarrow> a \<notin> author_name ` set (cs @ [c])
        | Some ds \<Rightarrow> ds \<noteq> [] \<and> distinct ds
            \<and> set ds = {datePart (author_date x) | x. x \<in> set (cs @ [c]) \<and> author_name x = a}" for a
  proof (cases "a = author_name c")
    case False
    from snoc have "case Map_get ?m a of
          None \<Rightarrow> a \<notin> author_name ` set cs
        | Some ds \<Rightarrow> ds \<noteq> [] \<and> distinct ds
            \<and> set ds = {datePart (author_date x) | x. x \<in> set cs \<and> author_name x = a}"
      by blast
    with False show ?thesis
      by (auto simp: collectDate_get split: option.splits)
  next
    case True
    from snoc have old: "case Map_get ?m a of
          None \<Rightarrow> a \<notin> author_name ` set cs
        | Some ds \<Rightarrow> ds \<noteq> [] \<and> distinct ds
            \<and> set ds = {datePart (author_date x) | x. x \<in> set cs \<and> author_name x = a}"
      by blast
    show ?thesis
    proof (cases "Map_get ?m a")
      case None
      with old have "a \<notin> author_name ` set cs" by simp
      then have "\<And>x. x \<in> set cs \<Longrightarrow> author_name x \<noteq> a" by auto
      then have "{datePart (author_date x) | x. x \<in> set (cs @ [c]) \<and> author_name x = a}
          = {datePart (author_date c)}"
        using True by auto
      with None True show ?thesis
        by (simp add: collectDate_get Set_add_def)
    next
      case (Some ds)
      with old have ds: "ds \<noteq> []" "distinct ds"
          "set ds = {datePart (author_date x) | x. x \<in> set cs \<and> author_name x = a}"
        by simp_all
      have "{datePart (author_date x) | x. x \<in> set (cs @ [c]) \<and> author_name x = a}
          = insert (datePart (author_date c)) (set ds)"
        using True ds(3) by auto
      with Some True ds show ?thesis
        by (auto simp: collectDate_get Set_add_def)
    qed
  qed
  with keys show ?case by blast
qed

lemma streakEntry_fold:
  "distinct (map fst m) \<Longrightarrow>
   Map_get (snd (foldl streakEntry (l, s) m)) a =
     (case Map_get m a of None \<Rightarrow> Map_get s a | Some ds \<Rightarrow> Some (authorStreak ds))"
proof (induction m arbitrary: l s)
  case Nil
  show ?case by (simp add: Map_get_def)
next
  case (Cons e m)
  obtain a0 ds0 where e: "e = (a0, ds0)" by (cases e)
  have step: "streakEntry (l, s) (a0, ds0)
      = (max l (authorStreak ds0), Map_set a0 (authorStreak ds0) s)"
    by (simp add: streakEntry_def Let_def)
  have d: "distinct (map fst m)" and fresh: "a0 \<notin> fst ` set m"
    using Cons.prems by (simp_all add: e)
  have none: "Map_get m a0 = None"
    using fresh by (simp add: Map_get_def map_of_eq_None_iff)
  show ?case
    using Cons.IH[OF d, of "max l (authorStreak ds0)" "Map_set a0 (authorStreak ds0) s"] none
    by (auto simp: step map_of_Map_set e Map_get_def split: option.splits)
qed

lemma streaksByAuthor_get:
  "Map_get (streaksByAuthor (calculateStreaks cs)) a =
     map_option authorStreak (Map_get (foldl collectDate [] cs) a)"
proof -
  have "distinct (map fst (foldl collectDate [] cs))"
    using commitsByAuthorAndDate_entries[of cs] by blast
  from streakEntry_fold[OF this, of 0 "[]" a]
  show ?thesis
    by (simp add: calculateStreaks_def Let_def split_def Map_get_def split: option.splits)
qed

lemma three_days_in_a_row: "longest_run {d, d + 1, d + 2} 3"
  unfolding longest_run_def
proof (intro conjI allI impI)
  show "\<exists>a. \<forall>i<3. a + int i \<in> {d, d + 1, d + 2}"
  proof (intro exI[of _ d] allI impI)
    fix i :: nat assume "i < 3"
    then have "i = 0 \<or> i = 1 \<or> i = 2" by arith
    then show "d + int i \<in> {d, d + 1, d + 2}" by auto
  qed
next
  fix a k assume run: "\<forall>i<k. a + int i \<in> {d, d + 1, d + 2}"
  show "k \<le> 3"
  proof (rule ccontr)
    assume "\<not> k \<le> 3"
    then have "0 < k" "3 < k" by simp_all
    with run have "a + int 0 \<in> {d, d + 1, d + 2}" "a + int 3 \<in> {d, d + 1, d + 2}" by blast+
    then show False by auto
  qed
qed

lemma days_one_two_four: "longest_run {d, d + 1, d + 3} 2"
  unfolding longest_run_def
proof (intro conjI allI impI)
  show "\<exists>a. \<forall>i<2. a + int i \<in> {d, d + 1, d + 3}"
  proof (intro exI[of _ d] allI impI)
    fix i :: nat assume "i < 2"
    then have "i = 0 \<or> i = 1" by arith
    then show "d + int i \<in> {d, d + 1, d + 3}" by auto
  qed
next
  fix a k assume run: "\<forall>i<k. a + int i \<in> {d, d + 1, d + 3}"
  show "k \<le> 2"
  proof (rule ccontr)
    assume "\<not> k \<le> 2"
    then have "0 < k" "1 < k" "2 < k" by simp_all
    with run have "a + int 0 \<in> {d, d + 1, d + 3}" "a + int 1 \<in> {d, d + 1, d + 3}"
        "a + int 2 \<in> {d, d + 1, d + 3}" by blast+
    then show False by auto
  qed
qed

text \<open>
  C4. With every commit dated by a calendar date, \<^verbatim>\<open>calculateStreaks\<close> records for each
  author of a commit the length of the longest run of consecutive days on which the
  author has a commit, and records nothing for anyone else (whom
  \<^verbatim>\<open>aggregateContributorStats\<close> then gives 0). Commits on exactly three days in a row
  give 3; commits on exactly the days 1, 2 and 4 of a stretch give 2.
\<close>

theorem calculateStreaks_longest_run:
  assumes "\<forall>c\<in>set cs. valid_date (datePart (author_date c))"
  shows "(a \<in> author_name ` set cs \<longrightarrow>
            (\<exists>n. Map_get (streaksByAuthor (calculateStreaks cs)) a = Some n
                 \<and> longest_run (commitDays cs a) n))
         \<and> (a \<notin> author_name ` set cs \<longrightarrow>
              Map_get (streaksByAuthor (calculateStreaks cs)) a = None)
         \<and> (commitDays cs a = {d, d + 1, d + 2} \<longrightarrow>
              Map_get (streaksByAuthor (calculateStreaks cs)) a = Some 3)
         \<and> (commitDays cs a = {d, d + 1, d + 3} \<longrightarrow>
              Map_get (streaksByAuthor (calculateStreaks cs)) a = Some 2)"
proof -
  let ?m = "foldl collectDate [] cs"
  have entry: "case Map_get ?m a of
          None \<Rightarrow> a \<notin> author_name ` set cs
        | Some ds \<Rightarrow> ds \<noteq> [] \<and> distinct ds
            \<and> set ds = {datePart (author_date c) | c. c \<in> set cs \<and> author_name c = a}"
    using commitsByAuthorAndDate_entries[of cs] by blast
  have absent: "Map_get (streaksByAuthor (calculateStreaks cs)) a = None"
    if "a \<notin> author_name ` set cs"
  proof (cases "Map_get ?m a")
    case None
    then show ?thesis by (simp add: streaksByAuthor_get)
  next
    case (Some ds)
    with entry have "ds \<noteq> []" "set ds = {datePart (author_date c) | c. c \<in> set cs \<and> author_name c = a}"
      by simp_all
    with that show ?thesis by (cases ds) auto
  qed
  have present: "\<exists>n. Map_get (streaksByAuthor (calculateStreaks cs)) a = Some n
      \<and> longest_run (commitDays cs a) n" if "a \<in> author_name ` set cs"
  proof (cases "Map_get ?m a")
    case None
    with entry that show ?thesis by simp
  next
    case (Some ds)
    with entry have ds: "ds \<noteq> []" "distinct ds"
        "set ds = {datePart (author_date c) | c. c \<in> set cs \<and> author_name c = a}"
      by simp_all
    have "\<forall>x\<in>set ds. valid_date x" using assms ds(3) by auto
    with ds have "longest_run (dayNumber ` set ds) (authorStreak ds)"
      by (intro authorStreak_longest_run)
    then have "longest_run (commitDays cs a) (authorStreak ds)"
      by (simp add: commitDays_def ds(3))
    then show ?thesis by (simp add: streaksByAuthor_get Some)
  qed
  have known: "a \<in> author_name ` set cs" if "commitDays cs a \<noteq> {}"
    using that by (auto simp: commitDays_def)
  have three: "Map_get (streaksByAuthor (calculateStreaks cs)) a = Some 3"
    if h: "commitDays cs a = {d, d + 1, d + 2}"
  proof -
    from h have "commitDays cs a \<noteq> {}" by simp
    from present[OF known[OF this]] obtain n
      where n: "Map_get (streaksByAuthor (calculateStreaks cs)) a = Some n"
        "longest_run (commitDays cs a) n" by blast
    from n(2) have "n = 3" unfolding h using three_days_in_a_row by (rule longest_run_unique)
    with n(1) show ?thesis by simp
  qed
  have two: "Map_get (streaksByAuthor (calculateStreaks cs)) a = Some 2"
    if h: "commitDays cs a = {d, d + 1, d + 3}"
  proof -
    from h have "commitDays cs a \<noteq> {}" by simp
    from present[OF known[OF this]] obtain n
      where n: "Map_get (streaksByAuthor (calculateStreaks cs)) a = Some n"
        "longest_run (commitDays cs a) n" by blast
    from n(2) have "n = 2" unfolding h using days_one_two_four by (rule longest_run_unique)
    with n(1) show ?thesis by simp
  qed
  from absent present three two show ?thesis by blast
qed

theorem calculateStreaks_longest_run_witness:
  "Map_get (streaksByAuthor (calculateStreaks
      [\<lparr> commitId = ''c1'', author_name = ''A'',
         author_date = \<lparr> datePart = (2024, 2, 29), msOfDay = 3600000 \<rparr>, comment = ''x'' \<rparr>,
       \<lparr> commitId = ''c2'', author_name = ''B'',
         author_date = \<lparr> datePart = (2024, 3, 4), msOfDay = 0 \<rparr>, comment = ''x'' \<rparr>,
       \<lparr> commitId = ''c3'', author_name = ''A'',
         author_date = \<lparr> datePart = (2024, 3, 1), msOfDay = 0 \<rparr>, comment = ''x'' \<rparr>,
       \<lparr> commitId = ''c4'', author_name = ''B'',
         author_date = \<lparr> datePart = (2024, 3, 1), msOfDay = 0 \<rparr>, comment = ''x'' \<rparr>,
       \<lparr> commitId = ''c5'', author_name = ''A'',
         author_date = \<lparr> datePart = (2024, 2, 28), msOfDay = 0 \<rparr>, comment = ''x'' \<rparr>,
       \<lparr> commitId = ''c6'', author_name = ''B'',
         author_date = \<lparr> datePart = (2024, 3, 2), msOfDay = 0 \<rparr>, comment = ''x'' \<rparr>,
       \<lparr> commitId = ''c7'', author_name = ''A'',
         author_date = \<lparr> datePart = (2024, 2, 29), msOfDay = 7200000 \<rparr>, comment = ''x'' \<rparr>])) ''A''
     = Some 3
   \<and> longest_run (commitDays
      [\<lparr> commitId = ''c1'', author_name = ''A'',
         author_date = \<lparr> datePart = (2024, 2, 29), msOfDay = 3600000 \<rparr>, comment = ''x'' \<rparr>,
       \<lparr> commitId = ''c2'', author_name = ''B'',
         author_date = \<lparr> datePart = (2024, 3, 4), msOfDay = 0 \<rparr>, comment = ''x'' \<rparr>,
       \<lparr> commitId = ''c3'', author_name = ''A'',
         author_date = \<lparr> datePart = (2024, 3, 1), msOfDay = 0 \<rparr>, comment = ''x'' \<rparr>,
       \<lparr> commitId = ''c4'', author_name = ''B'',
         author_date = \<lparr> datePart = (2024, 3, 1), msOfDay = 0 \<rparr>, comment = ''x'' \<rparr>,
       \<lparr> commitId = ''c5'', author_name = ''A'',
         author_date = \<lparr> datePart = (2024, 2, 28), msOfDay = 0 \<rparr>, comment = ''x'' \<rparr>,
       \<lparr> commitId = ''c6'', author_name = ''B'',
         author_date = \<lparr> datePart = (2024, 3, 2), msOfDay = 0 \<rparr>, comment = ''x'' \<rparr>,
       \<lparr> commitId = ''c7'', author_name = ''A'',
         author_date = \<lparr> datePart = (2024, 2, 29), msOfDay = 7200000 \<rparr>, comment = ''x'' \<rparr>] ''A'') 3
   \<and> Map_get (streaksByAuthor (calculateStreaks
      [\<lparr> commitId = ''c1'', author_name = ''A'',
         author_date = \<lparr> datePart = (2024, 2, 29), msOfDay = 3600000 \<rparr>, comment = ''x'' \<rparr>,
       \<lparr> commitId = ''c2'', author_name = ''B'',
         author_date = \<lparr> datePart = (2024, 3, 4), msOfDay = 0 \<rparr>, comment = ''x'' \<rparr>,
       \<lparr> commitId = ''c3'', author_name = ''A'',
         author_date = \<lparr> datePart = (2024, 3, 1), msOfDay = 0 \<rparr>, comment = ''x'' \<rparr>,
       \<lparr> commitId = ''c4'', author_name = ''B'',
         author_date = \<lparr> datePart = (2024, 3, 1), msOfDay = 0 \<rparr>, comment = ''x'' \<rparr>,
       \<lparr> commitId = ''c5'', author_name = ''A'',
         author_date = \<lparr> datePart = (2024, 2, 28), msOfDay = 0 \<rparr>, comment = ''x'' \<rparr>,
       \<lparr> commitId = ''c6'', author_name = ''B'',
         author_date = \<lparr> datePart = (2024, 3, 2), msOfDay = 0 \<rparr>, comment = ''x'' \<rparr>,
       \<lparr> commitId = ''c7'', author_name = ''A'',
         author_date = \<lparr> datePart = (2024, 2, 29), msOfDay = 7200000 \<rparr>, comment = ''x'' \<rparr>])) ''B''
     = Some 2"
proof -
  let ?cs = "[\<lparr> commitId = ''c1'', author_name = ''A'',
         author_date = \<lparr> datePart = (2024, 2, 29), msOfDay = 3600000 \<rparr>, comment = ''x'' \<rparr>,
       \<lparr> commitId = ''c2'', author_name = ''B'',
         author_date = \<lparr> datePart = (2024, 3, 4), msOfDay = 0 \<rparr>, comment = ''x'' \<rparr>,
       \<lparr> commitId = ''c3'', author_name = ''A'',
         author_date = \<lparr> datePart = (2024, 3, 1), msOfDay = 0 \<rparr>, comment = ''x'' \<rparr>,
       \<lparr> commitId = ''c4'', author_name = ''B'',
         author_date = \<lparr> datePart = (2024, 3, 1), msOfDay = 0 \<rparr>, comment = ''x'' \<rparr>,
       \<lparr> commitId = ''c5'', author_name = ''A'',
         author_date = \<lparr> datePart = (2024, 2, 28), msOfDay = 0 \<rparr>, comment = ''x'' \<rparr>,
       \<lparr> commitId = ''c6'', author_name = ''B'',
         author_date = \<lparr> datePart = (2024, 3, 2), msOfDay = 0 \<rparr>, comment = ''x'' \<rparr>,
       \<lparr> commitId = ''c7'', author_name = ''A'',
         author_date = \<lparr> datePart = (2024, 2, 29), msOfDay = 7200000 \<rparr>, comment = ''x'' \<rparr>]"
  have valid: "\<forall>c\<in>set ?cs. valid_date (datePart (author_date c))"
    by (simp add: valid_date_def days_in_month_def is_leap_def)
  have collected: "foldl collectDate [] ?cs =
      [(''A'', [(2024, 2, 29), (2024, 3, 1), (2024, 2, 28)]),
       (''B'', [(2024, 3, 4), (2024, 3, 1), (2024, 3, 2)])]"
    by (simp add: collectDate_def Map_has_def Set_add_def Let_def)
  have a: "authorStreak [(2024, 2, 29), (2024, 3, 1), (2024, 2, 28)] = 3"
    by (simp add: authorStreak_def diffDays_def date_defs)
  have b: "authorStreak [(2024, 3, 4), (2024, 3, 1), (2024, 3, 2)] = 2"
    by (simp add: authorStreak_def diffDays_def date_defs)
  have streaks: "streaksByAuthor (calculateStreaks ?cs) = [(''A'', 3), (''B'', 2)]"
    by (simp only: calculateStreaks_def Let_def collected)
       (simp add: streakEntry_def a b del: One_nat_def)
  have inA: "''A'' \<in> author_name ` set ?cs" by simp
  from calculateStreaks_longest_run[OF valid, of "''A''"] inA
  obtain n where n: "Map_get (streaksByAuthor (calculateStreaks ?cs)) ''A'' = Some n"
      "longest_run (commitDays ?cs ''A'') n"
    by blast
  have "Map_get (streaksByAuthor (calculateStreaks ?cs)) ''A'' = Some 3"
    by (simp only: streaks) (simp add: Map_get_def)
  with n have "longest_run (commitDays ?cs ''A'') 3" by simp
  moreover have "Map_get (streaksByAuthor (calculateStreaks ?cs)) ''A'' = Some 3"
    by (simp only: streaks) (simp add: Map_get_def)
  moreover have "Map_get (streaksByAuthor (calculateStreaks ?cs)) ''B'' = Some 2"
    by (simp only: streaks) (simp add: Map_get_def)
  ultimately show ?thesis by blast
qed

end
